theory Spec2Isabelle
  imports Complex_Main "HOL-Library.Word" "HOL-Library.AList"
begin

unbundle bit_operations_syntax

section \<open>Credential hashing (\<^verbatim>\<open>Db::hash_key\<close>, db.cpp)\<close>

text \<open>
  \<^verbatim>\<open>unsigned long hash = 5381; for (char c : key) hash = ((hash << 5) + hash) + c;\<close>

  \<^verbatim>\<open>unsigned long\<close> is a 64-bit word (LP64). Whether \<^verbatim>\<open>char\<close> is signed is left to the
  platform by C++, so it is a parameter of the model: \<open>char_value\<close> is the value of the
  \<^verbatim>\<open>char\<close> after integral promotion, and its conversion to \<^verbatim>\<open>unsigned long\<close> is the
  value modulo \<open>2 ^ 64\<close>, which is what \<open>word_of_int\<close> computes.
\<close>

definition char_value :: "bool \<Rightarrow> char \<Rightarrow> int" where
  "char_value char_is_signed c =
     (if char_is_signed \<and> 128 \<le> (of_char c :: int) then of_char c - 256 else of_char c)"

definition hash_step :: "bool \<Rightarrow> 64 word \<Rightarrow> char \<Rightarrow> 64 word" where
  "hash_step char_is_signed hash c =
     (push_bit 5 hash + hash) + word_of_int (char_value char_is_signed c)"

text \<open>\<^verbatim>\<open>std::to_string\<close> on an unsigned integer: its decimal digits, most significant first.\<close>

function to_string_nat :: "nat \<Rightarrow> string" where
  "to_string_nat n =
     (if n < 10 then [char_of (48 + n)]
      else to_string_nat (n div 10) @ [char_of (48 + n mod 10)])"
  by pat_completeness auto
termination
  by (relation "measure id") auto

declare to_string_nat.simps [simp del]

definition hash_key :: "bool \<Rightarrow> string \<Rightarrow> string" where
  "hash_key char_is_signed key =
     to_string_nat (unat (foldl (hash_step char_is_signed) 5381 key))"

text \<open>
  The specification's wording of the hash: start at 5381 and, for each input byte \<open>c\<close>,
  compute \<open>(hash << 5) + hash + c\<close> in 64-bit unsigned arithmetic, every operation
  wrapping at \<open>2 ^ 64\<close>. The byte is the value of the character between 0 and 255,
  whatever the platform does with \<^verbatim>\<open>char\<close>. Then what it means for a string to be a
  decimal rendering.
\<close>

definition djb2_step :: "int \<Rightarrow> char \<Rightarrow> int" where
  "djb2_step h c = (((h * 2 ^ 5) mod 2 ^ 64 + h) mod 2 ^ 64 + of_char c) mod 2 ^ 64"

definition djb2 :: "string \<Rightarrow> int" where
  "djb2 key = foldl djb2_step 5381 key"

definition decimal_value :: "string \<Rightarrow> nat" where
  "decimal_value s = foldl (\<lambda>a c. 10 * a + (of_char c - 48)) 0 s"

definition is_digit :: "char \<Rightarrow> bool" where
  "is_digit c = (48 \<le> (of_char c :: nat) \<and> (of_char c :: nat) \<le> 57)"

section \<open>The log file codec and the persistence engine (engine.cpp)\<close>

text \<open>
  The data directory is an association list from collection names to the bytes of
  \<^verbatim>\<open><base>/<name>.aev\<close>; the order of the list is the order in which
  \<^verbatim>\<open>fs::directory_iterator\<close> enumerates the files, which the filesystem chooses.
  A \<^verbatim>\<open>std::string\<close> is a list of 8-bit characters.
\<close>

type_synonym engine = "(string \<times> string) list"

definition list_collections :: "engine \<Rightarrow> string list" where
  "list_collections e = map fst e"

definition file_bytes :: "engine \<Rightarrow> string \<Rightarrow> string" where
  "file_bytes e collection =
     (case map_of e collection of None \<Rightarrow> [] | Some file \<Rightarrow> file)"

text \<open>
  A \<^verbatim>\<open>uint32_t\<close> is a natural number below \<open>2 ^ 32\<close>; the cast
  \<^verbatim>\<open>static_cast<uint32_t>(n)\<close> is \<open>n mod 4294967296\<close>, which is \<open>n mod 2 ^ 32\<close>.
  \<^verbatim>\<open>reinterpret_cast<const char*>(&length)\<close> gives its four bytes, least significant
  first (the little-endian targets the source names); \<open>bytes_u32\<close> is the inverse read.
\<close>

definition u32_bytes :: "nat \<Rightarrow> string" where
  "u32_bytes n =
     [char_of n, char_of (n div 256), char_of (n div 256 div 256),
      char_of (n div 256 div 256 div 256)]"

definition bytes_u32 :: "string \<Rightarrow> nat" where
  "bytes_u32 bs = foldr (\<lambda>c acc. of_char c + 256 * acc) bs 0"

text \<open>
  The reader loop of \<^verbatim>\<open>Engine::load_log\<close> on the unread rest of the file: stop at end of
  file, stop when fewer than four header bytes are left, stop when fewer payload bytes
  are left than the header \<open>bytes_u32 (take 4 file)\<close> announces; otherwise keep the
  payload and go on. The buffer that the loop resizes to the announced length is
  taken to be allocated; the model has no out-of-memory outcome.
\<close>

function read_frames :: "string \<Rightarrow> string list" where
  "read_frames file =
     (if file = [] then []
      else if length file < 4 then []
      else if length (drop 4 file) < bytes_u32 (take 4 file) then []
      else take (bytes_u32 (take 4 file)) (drop 4 file)
             # read_frames (drop (bytes_u32 (take 4 file)) (drop 4 file)))"
  by pat_completeness auto
termination
  by (relation "measure length") auto

declare read_frames.simps [simp del]

definition load_log :: "engine \<Rightarrow> string \<Rightarrow> string list" where
  "load_log e collection =
     (case map_of e collection of None \<Rightarrow> [] | Some file \<Rightarrow> read_frames file)"

text \<open>
  One frame as \<^verbatim>\<open>Engine::append\<close> (here \<open>append_frame\<close>) and \<^verbatim>\<open>Engine::compact\<close> write it:
  \<^verbatim>\<open>uint32_t length = static_cast<uint32_t>(raw_json.size())\<close>, the four bytes of
  \<open>length\<close>, then \<open>length\<close> bytes of the payload.
\<close>

definition frame_bytes :: "string \<Rightarrow> string" where
  "frame_bytes raw_json =
     (let length = size raw_json mod 4294967296
      in u32_bytes length @ take length raw_json)"

text \<open>
  What the operating system does with a write is an input of the model. \<^verbatim>\<open>Engine::append\<close>
  opens the stream, calls \<^verbatim>\<open>file.write\<close> twice and returns \<^verbatim>\<open>file.good()\<close>; it never
  flushes, so what the stream still buffers is written when the stream is destroyed
  at the end of the function, after the return value has been read. For an append:
  the stream stays good and the frame reaches the file (\<open>Stream_Good\<close>); the file cannot
  be opened (\<open>Open_Fails\<close>); a write to the file fails inside \<^verbatim>\<open>file.write\<close> after \<open>k\<close>
  bytes of the frame, and the stream is bad when \<^verbatim>\<open>good()\<close> is read (\<open>Write_Fails k\<close>);
  or the frame is still in the stream's buffer when \<^verbatim>\<open>good()\<close> is read, and the write
  that the destructor makes fails after \<open>k\<close> bytes (\<open>Flush_Fails k\<close>). Which of the last two
  a failing write is depends on whether the frame fits the buffer of the stream.
\<close>

datatype append_io = Stream_Good | Open_Fails | Write_Fails nat | Flush_Fails nat

definition append_frame :: "append_io \<Rightarrow> engine \<Rightarrow> string \<Rightarrow> string \<Rightarrow> bool \<times> engine" where
  "append_frame io e collection raw_json =
     (case io of
        Open_Fails \<Rightarrow> (False, e)
      | Stream_Good \<Rightarrow>
          (True, AList.update collection (file_bytes e collection @ frame_bytes raw_json) e)
      | Write_Fails k \<Rightarrow>
          (False, AList.update collection
                    (file_bytes e collection @ take k (frame_bytes raw_json)) e)
      | Flush_Fails k \<Rightarrow>
          (True, AList.update collection
                   (file_bytes e collection @ take k (frame_bytes raw_json)) e))"

text \<open>
  \<^verbatim>\<open>Engine::compact\<close> writes the frames to \<^verbatim>\<open><name>.aev.tmp\<close> and renames it over the
  log. Opening the temporary file, writing it and the rename can each fail; every
  failure returns false and leaves the log as it was.
\<close>

datatype compact_io = Swap_Done | Tmp_Open_Fails | Tmp_Write_Fails | Rename_Fails

definition compact_log :: "compact_io \<Rightarrow> engine \<Rightarrow> string \<Rightarrow> string list \<Rightarrow> bool \<times> engine" where
  "compact_log io e collection active_docs =
     (case io of
        Tmp_Open_Fails \<Rightarrow> (False, e)
      | Tmp_Write_Fails \<Rightarrow> (False, e)
      | Rename_Fails \<Rightarrow> (False, e)
      | Swap_Done \<Rightarrow>
          (True, AList.update collection (concat (map frame_bytes active_docs)) e))"

text \<open>
  The vocabulary of the round-trip property: appending a sequence of payloads in order
  with a healthy stream, writing raw bytes behind the log, and a tail that is not a
  whole frame.
\<close>

definition append_all :: "engine \<Rightarrow> string \<Rightarrow> string list \<Rightarrow> engine" where
  "append_all e collection payloads =
     foldl (\<lambda>e' p. snd (append_frame Stream_Good e' collection p)) e payloads"

definition write_raw :: "engine \<Rightarrow> string \<Rightarrow> string \<Rightarrow> engine" where
  "write_raw e collection bytes =
     AList.update collection (file_bytes e collection @ bytes) e"

definition incomplete_frame :: "string \<Rightarrow> bool" where
  "incomplete_frame tail =
     (length tail < 4 \<or> length (drop 4 tail) < bytes_u32 (take 4 tail))"

section \<open>cJSON values and the library calls the database makes\<close>

text \<open>
  A \<^verbatim>\<open>cJSON\<close> node as the library's struct has it: a type tag, \<^verbatim>\<open>valuestring\<close> (null
  unless the node is a string), \<^verbatim>\<open>valuedouble\<close>, the key \<^verbatim>\<open>string\<close> under which the node
  sits in its parent (null for array elements and roots) and the list of children.
  Arrays and objects differ in the tag only. A \<^verbatim>\<open>cJSON*\<close> is a \<open>cJSON option\<close>, \<open>None\<close>
  being the null pointer. Documents are held by value: a deep copy
  (\<^verbatim>\<open>cJSON_Duplicate(item, 1)\<close>) is the item itself.
\<close>

datatype cJSON_type =
  cJSON_False | cJSON_True | cJSON_NULL | cJSON_Number | cJSON_String | cJSON_Array | cJSON_Object

datatype cJSON =
  Item (item_type: cJSON_type) (valuestring: "string option") (valuedouble: real)
       (item_key: "string option") (child: "cJSON list")

definition cJSON_CreateObject :: cJSON where
  "cJSON_CreateObject = Item cJSON_Object None 0 None []"

definition cJSON_CreateArray :: cJSON where
  "cJSON_CreateArray = Item cJSON_Array None 0 None []"

definition cJSON_CreateString :: "string \<Rightarrow> cJSON" where
  "cJSON_CreateString s = Item cJSON_String (Some s) 0 None []"

definition cJSON_CreateNumber :: "real \<Rightarrow> cJSON" where
  "cJSON_CreateNumber d = Item cJSON_Number None d None []"

definition cJSON_CreateBool :: "bool \<Rightarrow> cJSON" where
  "cJSON_CreateBool b = Item (if b then cJSON_True else cJSON_False) None 0 None []"

definition set_key :: "string \<Rightarrow> cJSON \<Rightarrow> cJSON" where
  "set_key k item =
     Item (item_type item) (valuestring item) (valuedouble item) (Some k) (child item)"

definition add_child :: "cJSON \<Rightarrow> cJSON \<Rightarrow> cJSON" where
  "add_child parent item =
     Item (item_type parent) (valuestring parent) (valuedouble parent) (item_key parent)
          (child parent @ [item])"

text \<open>\<^verbatim>\<open>cJSON_AddItemToArray\<close> does nothing when the array pointer is null.\<close>

definition cJSON_AddItemToArray :: "cJSON option \<Rightarrow> cJSON \<Rightarrow> cJSON option" where
  "cJSON_AddItemToArray array item =
     (case array of None \<Rightarrow> None | Some a \<Rightarrow> Some (add_child a item))"

definition cJSON_AddItemToObject :: "cJSON \<Rightarrow> string \<Rightarrow> cJSON \<Rightarrow> cJSON" where
  "cJSON_AddItemToObject object k item = add_child object (set_key k item)"

definition cJSON_AddStringToObject :: "cJSON \<Rightarrow> string \<Rightarrow> string \<Rightarrow> cJSON" where
  "cJSON_AddStringToObject object k s = cJSON_AddItemToObject object k (cJSON_CreateString s)"

definition cJSON_AddNumberToObject :: "cJSON \<Rightarrow> string \<Rightarrow> real \<Rightarrow> cJSON" where
  "cJSON_AddNumberToObject object k d = cJSON_AddItemToObject object k (cJSON_CreateNumber d)"

definition cJSON_AddBoolToObject :: "cJSON \<Rightarrow> string \<Rightarrow> bool \<Rightarrow> cJSON" where
  "cJSON_AddBoolToObject object k b = cJSON_AddItemToObject object k (cJSON_CreateBool b)"

text \<open>
  \<^verbatim>\<open>cJSON_GetObjectItem\<close> walks the children and returns the first whose key equals the
  name, compared without regard to ASCII case; a child without a key never matches.
\<close>

definition tolower :: "char \<Rightarrow> char" where
  "tolower c =
     (case map_of (zip ''ABCDEFGHIJKLMNOPQRSTUVWXYZ'' ''abcdefghijklmnopqrstuvwxyz'') c of
        None \<Rightarrow> c
      | Some l \<Rightarrow> l)"

definition case_insensitive_equal :: "string \<Rightarrow> string \<Rightarrow> bool" where
  "case_insensitive_equal a b = (map tolower a = map tolower b)"

fun get_object_item :: "cJSON list \<Rightarrow> string \<Rightarrow> cJSON option" where
  "get_object_item [] name = None"
| "get_object_item (c # cs) name =
     (case item_key c of
        None \<Rightarrow> get_object_item cs name
      | Some k \<Rightarrow> if case_insensitive_equal name k then Some c else get_object_item cs name)"

definition cJSON_GetObjectItem :: "cJSON option \<Rightarrow> string \<Rightarrow> cJSON option" where
  "cJSON_GetObjectItem object name =
     (case object of None \<Rightarrow> None | Some obj \<Rightarrow> get_object_item (child obj) name)"

definition cJSON_HasObjectItem :: "cJSON \<Rightarrow> string \<Rightarrow> bool" where
  "cJSON_HasObjectItem object name = (cJSON_GetObjectItem (Some object) name \<noteq> None)"

definition cJSON_IsString :: "cJSON option \<Rightarrow> bool" where
  "cJSON_IsString item = (case item of None \<Rightarrow> False | Some i \<Rightarrow> item_type i = cJSON_String)"

definition cJSON_IsNumber :: "cJSON option \<Rightarrow> bool" where
  "cJSON_IsNumber item = (case item of None \<Rightarrow> False | Some i \<Rightarrow> item_type i = cJSON_Number)"

definition cJSON_IsTrue :: "cJSON option \<Rightarrow> bool" where
  "cJSON_IsTrue item = (case item of None \<Rightarrow> False | Some i \<Rightarrow> item_type i = cJSON_True)"

definition cJSON_GetArraySize :: "cJSON option \<Rightarrow> nat" where
  "cJSON_GetArraySize array = (case array of None \<Rightarrow> 0 | Some a \<Rightarrow> length (child a))"

text \<open>The items \<^verbatim>\<open>cJSON_ArrayForEach\<close> visits; none when the pointer is null.\<close>

definition array_items :: "cJSON option \<Rightarrow> cJSON list" where
  "array_items array = (case array of None \<Rightarrow> [] | Some a \<Rightarrow> child a)"

text \<open>\<open>p->valuestring\<close> behind a pointer already known to be non-null.\<close>

definition string_behind :: "cJSON option \<Rightarrow> string option" where
  "string_behind p = (case p of None \<Rightarrow> None | Some i \<Rightarrow> valuestring i)"

text \<open>
  The parser, the printer, \<^verbatim>\<open>std::to_string(double)\<close> and the four entry points of the
  predicate engine behind \<^verbatim>\<open>aevum::ffi\<close> are not part of the storage layer; the model
  takes them as an environment. \<^verbatim>\<open>cJSON_Parse\<close> returns null on text that is not JSON.
  \<^verbatim>\<open>cJSON_PrintUnformatted\<close> returns null on a null item, and building a \<^verbatim>\<open>std::string\<close>
  from a null \<^verbatim>\<open>char*\<close> does not return: that is the error \<open>Null_String\<close>.
\<close>

record env =
  cJSON_Parse :: "string \<Rightarrow> cJSON option"
  cJSON_PrintUnformatted :: "cJSON \<Rightarrow> string"
  to_string_double :: "real \<Rightarrow> string"
  call_validate :: "string \<Rightarrow> string \<Rightarrow> bool"
  call_count :: "string \<Rightarrow> string \<Rightarrow> int"
  call_find :: "string \<Rightarrow> string \<Rightarrow> string \<Rightarrow> string \<Rightarrow> int \<Rightarrow> int \<Rightarrow> string"
  call_update :: "string \<Rightarrow> string \<Rightarrow> string \<Rightarrow> string"

datatype error = Null_String

definition print_string :: "env \<Rightarrow> cJSON option \<Rightarrow> error + string" where
  "print_string env item =
     (case item of None \<Rightarrow> Inl Null_String | Some i \<Rightarrow> Inr (cJSON_PrintUnformatted env i))"

definition std_string :: "string option \<Rightarrow> error + string" where
  "std_string p = (case p of None \<Rightarrow> Inl Null_String | Some s \<Rightarrow> Inr s)"

fun fold_result :: "('s \<Rightarrow> 'a \<Rightarrow> error + 's) \<Rightarrow> 'a list \<Rightarrow> 's \<Rightarrow> error + 's" where
  "fold_result f [] s = Inr s"
| "fold_result f (x # xs) s = (case f s x of Inl e \<Rightarrow> Inl e | Inr s' \<Rightarrow> fold_result f xs s')"

section \<open>The database controller (db.cpp)\<close>

datatype UserRole = NONE | READ_ONLY | READ_WRITE | ADMIN

text \<open>
  The members of \<^verbatim>\<open>Db\<close>. \<open>memory_store\<close> maps a collection to the pointer to its array,
  which \<^verbatim>\<open>Db::update\<close> can make null. The outer levels of \<open>id_indexes\<close> and
  \<open>custom_indexes\<close> are total with empty defaults, because the source reaches them
  through \<^verbatim>\<open>operator[]\<close> only, which creates the empty entry it does not find. An
  \<^verbatim>\<open>unordered_set\<close> of field names is a duplicate-free list. Index entries, pointers into
  the array in the source, hold the document they point to.
\<close>

record db =
  storage :: engine
  memory_store :: "string \<rightharpoonup> cJSON option"
  id_indexes :: "string \<Rightarrow> (string \<rightharpoonup> cJSON)"
  schemas :: "string \<rightharpoonup> cJSON"
  custom_indexes :: "string \<Rightarrow> string \<Rightarrow> (string \<rightharpoonup> cJSON list)"
  indexed_fields :: "string \<rightharpoonup> string list"
  auth_cache :: "string \<rightharpoonup> UserRole"

definition fresh_db :: "engine \<Rightarrow> db" where
  "fresh_db e =
     \<lparr>storage = e, memory_store = Map.empty, id_indexes = (\<lambda>_. Map.empty),
      schemas = Map.empty, custom_indexes = (\<lambda>_ _. Map.empty),
      indexed_fields = Map.empty, auth_cache = Map.empty\<rparr>"

subsection \<open>Index maintenance\<close>

text \<open>
  The key under which \<^verbatim>\<open>update_custom_index\<close> files a field value: the string itself,
  \<^verbatim>\<open>std::to_string\<close> of a number, and nothing (\<^verbatim>\<open>continue\<close>) otherwise.
\<close>

definition stringify :: "env \<Rightarrow> cJSON option \<Rightarrow> string option" where
  "stringify env val =
     (case val of
        None \<Rightarrow> None
      | Some v \<Rightarrow>
          if item_type v = cJSON_String \<and> valuestring v \<noteq> None then valuestring v
          else if item_type v = cJSON_Number then Some (to_string_double env (valuedouble v))
          else None)"

definition index_field ::
  "env \<Rightarrow> cJSON \<Rightarrow> bool \<Rightarrow> (string \<Rightarrow> (string \<rightharpoonup> cJSON list)) \<Rightarrow> string
     \<Rightarrow> (string \<Rightarrow> (string \<rightharpoonup> cJSON list))" where
  "index_field env doc add idx field =
     (case stringify env (cJSON_GetObjectItem (Some doc) field) of
        None \<Rightarrow> idx
      | Some key_val \<Rightarrow>
          let vec = (case idx field key_val of None \<Rightarrow> [] | Some v \<Rightarrow> v) in
          if add then idx(field := (idx field)(key_val \<mapsto> vec @ [doc]))
          else if doc \<in> set vec then
            (if remove1 doc vec = [] then idx(field := (idx field)(key_val := None))
             else idx(field := (idx field)(key_val \<mapsto> remove1 doc vec)))
          else idx(field := (idx field)(key_val \<mapsto> vec)))"

definition update_custom_index :: "env \<Rightarrow> db \<Rightarrow> string \<Rightarrow> cJSON \<Rightarrow> bool \<Rightarrow> db" where
  "update_custom_index env s coll doc add =
     (case indexed_fields s coll of
        None \<Rightarrow> s
      | Some registered \<Rightarrow>
          s\<lparr>custom_indexes := (custom_indexes s)
               (coll := foldl (index_field env doc add) (custom_indexes s coll) registered)\<rparr>)"

definition index_item :: "env \<Rightarrow> string \<Rightarrow> db \<Rightarrow> cJSON \<Rightarrow> db" where
  "index_item env collection s item =
     (let id_node = cJSON_GetObjectItem (Some item) ''_id'';
          s1 = (case (if cJSON_IsString id_node then string_behind id_node else None) of
                  None \<Rightarrow> s
                | Some uuid \<Rightarrow>
                    s\<lparr>id_indexes := (id_indexes s)
                         (collection := (id_indexes s collection)(uuid \<mapsto> item))\<rparr>)
      in update_custom_index env s1 collection item True)"

definition rebuild_index :: "env \<Rightarrow> db \<Rightarrow> string \<Rightarrow> cJSON option \<Rightarrow> db" where
  "rebuild_index env s collection array =
     foldl (index_item env collection)
       (s\<lparr>id_indexes := (id_indexes s)(collection := Map.empty),
          custom_indexes := (custom_indexes s)(collection := (\<lambda>_. Map.empty))\<rparr>)
       (array_items array)"

text \<open>The documents of a collection that are live in memory, in array order.\<close>

definition collection_items :: "db \<Rightarrow> string \<Rightarrow> cJSON list" where
  "collection_items s coll =
     (case memory_store s coll of None \<Rightarrow> [] | Some array \<Rightarrow> array_items array)"

subsection \<open>Compaction\<close>

definition compact_collection :: "env \<Rightarrow> compact_io \<Rightarrow> db \<Rightarrow> string \<Rightarrow> bool \<times> db" where
  "compact_collection env io s coll =
     (case memory_store s coll of
        None \<Rightarrow> (False, s)
      | Some array \<Rightarrow>
          let active_docs = map (cJSON_PrintUnformatted env) (array_items array);
              r = compact_log io (storage s) coll active_docs
          in (fst r, s\<lparr>storage := snd r\<rparr>))"

subsection \<open>Recovery (\<^verbatim>\<open>Db::load_all\<close>)\<close>

text \<open>One entry of an \<^verbatim>\<open>_indexes\<close> frame.\<close>

definition load_index_entry ::
  "(string \<rightharpoonup> string list) \<Rightarrow> cJSON \<Rightarrow> error + (string \<rightharpoonup> string list)" where
  "load_index_entry registered item =
     (let c = cJSON_GetObjectItem (Some item) ''collection'';
          f = cJSON_GetObjectItem (Some item) ''field''
      in if c \<noteq> None \<and> f \<noteq> None then
           (case std_string (string_behind c) of
              Inl e \<Rightarrow> Inl e
            | Inr cs \<Rightarrow>
               (case std_string (string_behind f) of
                  Inl e \<Rightarrow> Inl e
                | Inr fs \<Rightarrow>
                    Inr (registered(cs \<mapsto>
                      List.insert fs (case registered cs of None \<Rightarrow> [] | Some l \<Rightarrow> l)))))
         else Inr registered)"

definition load_index_frame ::
  "env \<Rightarrow> (string \<rightharpoonup> string list) \<Rightarrow> string \<Rightarrow> error + (string \<rightharpoonup> string list)" where
  "load_index_frame env registered frame =
     (case cJSON_Parse env frame of
        None \<Rightarrow> Inr registered
      | Some arr \<Rightarrow> fold_result load_index_entry (child arr) registered)"

text \<open>
  One log entry of the data phase, on the pair of the schema registry and the snapshot
  \<open>temp_map\<close>. The snapshot is an \<^verbatim>\<open>unordered_map\<close> in the source; the model keeps it as an
  association list with distinct keys and takes the order of the list for the order in
  which the map is iterated afterwards.
\<close>

definition replay_entry ::
  "env \<Rightarrow> string \<Rightarrow> (string \<rightharpoonup> cJSON) \<times> (string \<times> cJSON) list \<Rightarrow> string
     \<Rightarrow> (string \<rightharpoonup> cJSON) \<times> (string \<times> cJSON) list" where
  "replay_entry env name st log_entry =
     (case cJSON_Parse env log_entry of
        None \<Rightarrow> st
      | Some item \<Rightarrow>
          if name = ''_schemas'' then
            (case string_behind (cJSON_GetObjectItem (Some item) ''collection'') of
               None \<Rightarrow> st
             | Some c_name \<Rightarrow> ((fst st)(c_name \<mapsto> item), snd st))
          else
            (case string_behind (cJSON_GetObjectItem (Some item) ''_id'') of
               None \<Rightarrow> st
             | Some uuid \<Rightarrow>
                 if cJSON_IsTrue (cJSON_GetObjectItem (Some item) ''_deleted'')
                 then (fst st, AList.delete uuid (snd st))
                 else (fst st, AList.update uuid item (snd st))))"

definition load_auth_item ::
  "(string \<rightharpoonup> UserRole) \<Rightarrow> cJSON \<Rightarrow> error + (string \<rightharpoonup> UserRole)" where
  "load_auth_item cache item =
     (let k = cJSON_GetObjectItem (Some item) ''key_hash'';
          r = cJSON_GetObjectItem (Some item) ''role''
      in if k \<noteq> None \<and> r \<noteq> None then
           (case std_string (string_behind r) of
              Inl e \<Rightarrow> Inl e
            | Inr role_str \<Rightarrow>
               (case std_string (string_behind k) of
                  Inl e \<Rightarrow> Inl e
                | Inr key \<Rightarrow>
                    Inr (cache(key \<mapsto>
                      (if role_str = ''admin'' then ADMIN
                       else if role_str = ''read_write'' then READ_WRITE
                       else READ_ONLY)))))
         else Inr cache)"

definition load_collection ::
  "env \<Rightarrow> (string \<Rightarrow> compact_io) \<Rightarrow> db \<Rightarrow> string \<Rightarrow> error + db" where
  "load_collection env io s name =
     (if name = ''_indexes'' then
        (case fold_result (load_index_frame env) (load_log (storage s) name) (indexed_fields s) of
           Inl e \<Rightarrow> Inl e
         | Inr registered \<Rightarrow> Inr (s\<lparr>indexed_fields := registered\<rparr>))
      else
        let logs = load_log (storage s) name;
            st = foldl (replay_entry env name) (schemas s, []) logs;
            temp_map = snd st;
            s1 = s\<lparr>schemas := fst st\<rparr>
        in if name \<noteq> ''_schemas'' then
             let collection_arr =
                   foldl (\<lambda>a d. add_child a d) cJSON_CreateArray (map snd temp_map);
                 s2 = s1\<lparr>memory_store := (memory_store s1)(name \<mapsto> Some collection_arr)\<rparr>;
                 s3 = rebuild_index env s2 name (Some collection_arr)
             in (case (if name = ''_auth''
                       then fold_result load_auth_item (child collection_arr) (auth_cache s3)
                       else Inr (auth_cache s3)) of
                   Inl e \<Rightarrow> Inl e
                 | Inr cache \<Rightarrow>
                     let s4 = s3\<lparr>auth_cache := cache\<rparr>
                     in if length logs > length temp_map * 2 \<and> length temp_map > 100
                        then Inr (snd (compact_collection env (io name) s4 name))
                        else Inr s4)
           else Inr s1)"

definition load_all :: "env \<Rightarrow> (string \<Rightarrow> compact_io) \<Rightarrow> db \<Rightarrow> error + db" where
  "load_all env io s = fold_result (load_collection env io) (list_collections (storage s)) s"

subsection \<open>Validation and insert\<close>

definition validate :: "env \<Rightarrow> db \<Rightarrow> string \<Rightarrow> cJSON \<Rightarrow> bool" where
  "validate env s coll data =
     (case schemas s coll of
        None \<Rightarrow> True
      | Some schema \<Rightarrow>
          call_validate env (cJSON_PrintUnformatted env data) (cJSON_PrintUnformatted env schema))"

definition get_collection :: "db \<Rightarrow> string \<Rightarrow> cJSON option \<times> db" where
  "get_collection s name =
     (case memory_store s name of
        None \<Rightarrow>
          (Some cJSON_CreateArray,
           s\<lparr>memory_store := (memory_store s)(name \<mapsto> Some cJSON_CreateArray),
             id_indexes := (id_indexes s)(name := Map.empty)\<rparr>)
      | Some array \<Rightarrow> (array, s))"

text \<open>
  The \<^verbatim>\<open>_id\<close> of the document to insert: a generated one, added to \<open>data\<close>, when
  \<open>data\<close> has no \<^verbatim>\<open>_id\<close> member, and otherwise
  \<^verbatim>\<open>uuid = cJSON_GetObjectItem(data, "_id")->valuestring\<close>, which assigns a null pointer
  to a \<^verbatim>\<open>std::string\<close> when the member is not a string.
\<close>

definition assign_id :: "string \<Rightarrow> cJSON \<Rightarrow> error + string \<times> cJSON" where
  "assign_id generated data =
     (if \<not> cJSON_HasObjectItem data ''_id''
      then Inr (generated, cJSON_AddStringToObject data ''_id'' generated)
      else (case std_string (string_behind (cJSON_GetObjectItem (Some data) ''_id'')) of
              Inl e \<Rightarrow> Inl e
            | Inr uuid \<Rightarrow> Inr (uuid, data)))"

text \<open>
  \<^verbatim>\<open>Db::insert\<close>. \<open>generated\<close> is what \<^verbatim>\<open>IdGenerator::generate()\<close> returns when it is
  called, \<open>io\<close> what the operating system does with the append.
\<close>

definition insert_doc ::
  "env \<Rightarrow> string \<Rightarrow> append_io \<Rightarrow> db \<Rightarrow> string \<Rightarrow> cJSON \<Rightarrow> error + bool \<times> db" where
  "insert_doc env generated io s coll data =
     (if \<not> validate env s coll data then Inr (False, s)
      else
        let arr = fst (get_collection s coll); s1 = snd (get_collection s coll)
        in case assign_id generated data of
             Inl e \<Rightarrow> Inl e
           | Inr (uuid, data') \<Rightarrow>
               let new_item = data';
                   s2 = s1\<lparr>memory_store :=
                           (memory_store s1)(coll \<mapsto> cJSON_AddItemToArray arr new_item)\<rparr>;
                   s3 = s2\<lparr>id_indexes :=
                           (id_indexes s2)(coll := (id_indexes s2 coll)(uuid \<mapsto> new_item))\<rparr>;
                   s4 = update_custom_index env s3 coll new_item True;
                   raw = cJSON_PrintUnformatted env new_item;
                   r = append_frame io (storage s4) coll raw
               in Inr (fst r, s4\<lparr>storage := snd r\<rparr>))"

subsection \<open>Count, find, update, upsert\<close>

definition count_docs :: "env \<Rightarrow> db \<Rightarrow> string \<Rightarrow> cJSON option \<Rightarrow> error + int" where
  "count_docs env s coll query =
     (case memory_store s coll of
        None \<Rightarrow> Inr 0
      | Some array \<Rightarrow>
          if query = None \<or> cJSON_GetArraySize query = 0
          then Inr (int (cJSON_GetArraySize array))
          else (case print_string env array of
                  Inl e \<Rightarrow> Inl e
                | Inr raw_data \<Rightarrow>
                   (case print_string env query of
                      Inl e \<Rightarrow> Inl e
                    | Inr raw_query \<Rightarrow> Inr (call_count env raw_data raw_query))))"

text \<open>
  The slice of the secondary-index tier: \<^verbatim>\<open>size_t start = skip\<close>,
  \<^verbatim>\<open>end = limit > 0 ? min(start + limit, docs.size()) : docs.size()\<close>, in 64-bit
  unsigned arithmetic, and the documents at \<open>start\<close> up to \<open>end\<close> when \<open>start\<close> is
  inside the list.
\<close>

definition index_slice :: "cJSON list \<Rightarrow> int \<Rightarrow> int \<Rightarrow> cJSON list" where
  "index_slice docs limit skip =
     (let start = nat (skip mod 18446744073709551616);
          end = (if limit > 0
                 then min ((start + nat (limit mod 18446744073709551616)) mod 18446744073709551616)
                          (length docs)
                 else length docs)
      in if start < length docs then take (end - start) (drop start docs) else [])"

definition result_array :: "cJSON list \<Rightarrow> cJSON" where
  "result_array docs = foldl add_child cJSON_CreateArray docs"

text \<open>
  \<^verbatim>\<open>Db::find\<close>, tier by tier. A tier that does not answer hands over to the next one:
  the primary-key tier returns \<open>None\<close> then, the secondary-index tier \<open>Inr None\<close>.
\<close>

definition simple_request :: "cJSON option \<Rightarrow> cJSON option \<Rightarrow> bool" where
  "simple_request sorting projection =
     ((sorting = None \<or> cJSON_GetArraySize sorting = 0)
      \<and> (projection = None \<or> cJSON_GetArraySize projection = 0))"

definition find_tier1 :: "db \<Rightarrow> string \<Rightarrow> cJSON option \<Rightarrow> bool \<Rightarrow> cJSON option" where
  "find_tier1 s coll query simple_req =
     (let id_query = cJSON_GetObjectItem query ''_id''
      in case (if simple_req \<and> cJSON_IsString id_query then string_behind id_query
               else None) of
           None \<Rightarrow> None
         | Some target_id \<Rightarrow>
             (case id_indexes s coll target_id of
                Some doc \<Rightarrow> Some (result_array [doc])
              | None \<Rightarrow> Some cJSON_CreateArray))"

definition query_value_string :: "env \<Rightarrow> cJSON \<Rightarrow> error + string" where
  "query_value_string env q_child =
     (if item_type q_child = cJSON_String then std_string (valuestring q_child)
      else if item_type q_child = cJSON_Number
      then Inr (to_string_double env (valuedouble q_child))
      else Inr [])"

definition find_tier2 ::
  "env \<Rightarrow> db \<Rightarrow> string \<Rightarrow> cJSON option \<Rightarrow> bool \<Rightarrow> int \<Rightarrow> int \<Rightarrow> error + cJSON option" where
  "find_tier2 env s coll query simple_req limit skip =
     (if simple_req \<and> cJSON_GetArraySize query = 1 \<and> indexed_fields s coll \<noteq> None then
        (case array_items query of
           [] \<Rightarrow> Inr None
         | q_child # _ \<Rightarrow>
            (case item_key q_child of
               None \<Rightarrow> Inr None
             | Some field \<Rightarrow>
                 if field \<in> set (case indexed_fields s coll of None \<Rightarrow> [] | Some l \<Rightarrow> l)
                 then
                   (case query_value_string env q_child of
                      Inl e \<Rightarrow> Inl e
                    | Inr val_str \<Rightarrow>
                        if val_str \<noteq> [] then
                          (case custom_indexes s coll field val_str of
                             Some docs \<Rightarrow>
                               Inr (Some (result_array (index_slice docs limit skip)))
                           | None \<Rightarrow> Inr (Some cJSON_CreateArray))
                        else Inr None)
                 else Inr None))
      else Inr None)"

definition find_tier3 ::
  "env \<Rightarrow> cJSON option \<Rightarrow> cJSON option \<Rightarrow> cJSON option \<Rightarrow> cJSON option \<Rightarrow> int \<Rightarrow> int
     \<Rightarrow> error + cJSON option" where
  "find_tier3 env array query sorting projection limit skip =
     (case print_string env array of
        Inl e \<Rightarrow> Inl e
      | Inr raw_data \<Rightarrow>
         (case print_string env query of
            Inl e \<Rightarrow> Inl e
          | Inr raw_query \<Rightarrow>
              let raw_sort = cJSON_PrintUnformatted env
                    (case sorting of Some so \<Rightarrow> so | None \<Rightarrow> cJSON_CreateObject);
                  raw_proj = cJSON_PrintUnformatted env
                    (case projection of Some p \<Rightarrow> p | None \<Rightarrow> cJSON_CreateObject)
              in Inr (cJSON_Parse env
                    (call_find env raw_data raw_query raw_sort raw_proj limit skip))))"

definition find_docs ::
  "env \<Rightarrow> db \<Rightarrow> string \<Rightarrow> cJSON option \<Rightarrow> cJSON option \<Rightarrow> cJSON option \<Rightarrow> int \<Rightarrow> int
     \<Rightarrow> error + cJSON option" where
  "find_docs env s coll query sorting projection limit skip =
     (case memory_store s coll of
        None \<Rightarrow> Inr (Some cJSON_CreateArray)
      | Some array \<Rightarrow>
          let simple_req = simple_request sorting projection
          in case find_tier1 s coll query simple_req of
               Some res \<Rightarrow> Inr (Some res)
             | None \<Rightarrow>
                (case find_tier2 env s coll query simple_req limit skip of
                   Inl e \<Rightarrow> Inl e
                 | Inr (Some res) \<Rightarrow> Inr (Some res)
                 | Inr None \<Rightarrow> find_tier3 env array query sorting projection limit skip))"

definition update_docs ::
  "env \<Rightarrow> compact_io \<Rightarrow> db \<Rightarrow> string \<Rightarrow> cJSON option \<Rightarrow> cJSON option \<Rightarrow> error + bool \<times> db" where
  "update_docs env io s coll query data =
     (case memory_store s coll of
        None \<Rightarrow> Inr (False, s)
      | Some array \<Rightarrow>
         (case print_string env array of
            Inl e \<Rightarrow> Inl e
          | Inr raw_d \<Rightarrow>
             (case print_string env query of
                Inl e \<Rightarrow> Inl e
              | Inr raw_q \<Rightarrow>
                 (case print_string env data of
                    Inl e \<Rightarrow> Inl e
                  | Inr raw_u \<Rightarrow>
                      let new_collection = cJSON_Parse env (call_update env raw_d raw_q raw_u);
                          s1 = s\<lparr>memory_store := (memory_store s)(coll \<mapsto> new_collection)\<rparr>;
                          s2 = rebuild_index env s1 coll new_collection;
                          s3 = snd (compact_collection env io s2 coll)
                      in Inr (True, s3)))))"

text \<open>
  \<^verbatim>\<open>Db::upsert\<close> takes no lock itself. It calls \<^verbatim>\<open>count\<close>, whose \<^verbatim>\<open>std::shared_lock\<close> is
  released when \<^verbatim>\<open>count\<close> returns, and then \<^verbatim>\<open>update\<close> or \<^verbatim>\<open>insert\<close>, each of which takes
  its own \<^verbatim>\<open>std::unique_lock\<close>. So an upsert is two critical sections, and the steps of
  concurrent callers interleave at that granularity: \<open>upsert_decide\<close> is the first
  section, \<open>upsert_mutate\<close> the second, run on whatever state the database is in when
  the writer lock is obtained.
\<close>

datatype lock_event = Lock_Shared | Unlock_Shared | Lock_Unique | Unlock_Unique

definition count_locks :: "lock_event list" where
  "count_locks = [Lock_Shared, Unlock_Shared]"

definition insert_locks :: "lock_event list" where
  "insert_locks = [Lock_Unique, Unlock_Unique]"

definition update_locks :: "lock_event list" where
  "update_locks = [Lock_Unique, Unlock_Unique]"

definition upsert_locks :: "int \<Rightarrow> lock_event list" where
  "upsert_locks existing = count_locks @ (if existing > 0 then update_locks else insert_locks)"

definition upsert_decide :: "env \<Rightarrow> db \<Rightarrow> string \<Rightarrow> cJSON option \<Rightarrow> error + int" where
  "upsert_decide env s coll query = count_docs env s coll query"

definition upsert_mutate ::
  "env \<Rightarrow> string \<Rightarrow> append_io \<Rightarrow> compact_io \<Rightarrow> int \<Rightarrow> db \<Rightarrow> string \<Rightarrow> cJSON option \<Rightarrow> cJSON
     \<Rightarrow> error + bool \<times> db" where
  "upsert_mutate env generated aio cio existing s coll query data =
     (if existing > 0 then update_docs env cio s coll query (Some data)
      else insert_doc env generated aio s coll data)"

definition upsert ::
  "env \<Rightarrow> string \<Rightarrow> append_io \<Rightarrow> compact_io \<Rightarrow> db \<Rightarrow> string \<Rightarrow> cJSON option \<Rightarrow> cJSON
     \<Rightarrow> error + bool \<times> db" where
  "upsert env generated aio cio s coll query data =
     (case upsert_decide env s coll query of
        Inl e \<Rightarrow> Inl e
      | Inr existing \<Rightarrow> upsert_mutate env generated aio cio existing s coll query data)"

section \<open>The specification's reading of a log\<close>

text \<open>
  The left fold of the replay property, in the words of the specification: a frame
  that fails to parse or lacks a string \<^verbatim>\<open>_id\<close> is skipped; a frame with
  \<^verbatim>\<open>_deleted: true\<close> removes its \<^verbatim>\<open>_id\<close> (a no-op when the \<^verbatim>\<open>_id\<close> is absent); any other
  frame inserts or replaces the document under its \<^verbatim>\<open>_id\<close>.
\<close>

definition apply_frame :: "env \<Rightarrow> (string \<rightharpoonup> cJSON) \<Rightarrow> string \<Rightarrow> (string \<rightharpoonup> cJSON)" where
  "apply_frame env m frame =
     (case cJSON_Parse env frame of
        None \<Rightarrow> m
      | Some item \<Rightarrow>
          (case string_behind (cJSON_GetObjectItem (Some item) ''_id'') of
             None \<Rightarrow> m
           | Some uuid \<Rightarrow>
               if cJSON_IsTrue (cJSON_GetObjectItem (Some item) ''_deleted'')
               then m(uuid := None)
               else m(uuid \<mapsto> item)))"

definition replay_log :: "env \<Rightarrow> string list \<Rightarrow> (string \<rightharpoonup> cJSON)" where
  "replay_log env frames = foldl (apply_frame env) Map.empty frames"

section \<open>Metadata that recovery can read\<close>

text \<open>
  \<^verbatim>\<open>load_all\<close> builds \<^verbatim>\<open>std::string\<close>s from the \<^verbatim>\<open>valuestring\<close> of the \<^verbatim>\<open>collection\<close> and
  \<^verbatim>\<open>field\<close> members of an \<^verbatim>\<open>_indexes\<close> entry and of the \<^verbatim>\<open>key_hash\<close> and \<^verbatim>\<open>role\<close> members
  of an \<^verbatim>\<open>_auth\<close> document without testing that they are strings. It returns when
  these members, where both are present, are strings.
\<close>

definition wf_index_entry :: "cJSON \<Rightarrow> bool" where
  "wf_index_entry item =
     (cJSON_GetObjectItem (Some item) ''collection'' = None
      \<or> cJSON_GetObjectItem (Some item) ''field'' = None
      \<or> (string_behind (cJSON_GetObjectItem (Some item) ''collection'') \<noteq> None
          \<and> string_behind (cJSON_GetObjectItem (Some item) ''field'') \<noteq> None))"

definition wf_index_frame :: "env \<Rightarrow> string \<Rightarrow> bool" where
  "wf_index_frame env frame =
     (case cJSON_Parse env frame of None \<Rightarrow> True | Some arr \<Rightarrow> list_all wf_index_entry (child arr))"

definition wf_auth_item :: "cJSON \<Rightarrow> bool" where
  "wf_auth_item item =
     (cJSON_GetObjectItem (Some item) ''key_hash'' = None
      \<or> cJSON_GetObjectItem (Some item) ''role'' = None
      \<or> (string_behind (cJSON_GetObjectItem (Some item) ''key_hash'') \<noteq> None
          \<and> string_behind (cJSON_GetObjectItem (Some item) ''role'') \<noteq> None))"

section \<open>Concrete scenarios\<close>

text \<open>
  Documents, log files and an environment for the scenarios of the specification. The
  parser and the printer of the scenario environment are the table \<open>scenario_texts\<close>
  of JSON texts and the values that cJSON reads them as; the predicate engine of the
  scenario environment matches nothing and returns the empty array.
\<close>

definition tombstone :: "string \<Rightarrow> cJSON" where
  "tombstone uuid =
     cJSON_AddBoolToObject (cJSON_AddStringToObject cJSON_CreateObject ''_id'' uuid)
       ''_deleted'' True"

definition doc_a :: cJSON where
  "doc_a = cJSON_AddNumberToObject
             (cJSON_AddStringToObject cJSON_CreateObject ''_id'' ''a'') ''v'' 1"

definition doc_b :: cJSON where
  "doc_b = cJSON_AddNumberToObject
             (cJSON_AddStringToObject cJSON_CreateObject ''_id'' ''b'') ''v'' 2"

definition doc_noid :: cJSON where
  "doc_noid = cJSON_AddNumberToObject cJSON_CreateObject ''v'' 3"

definition doc_kind_A :: cJSON where
  "doc_kind_A = cJSON_AddStringToObject
                  (cJSON_AddStringToObject cJSON_CreateObject ''_id'' ''k1'') ''kind'' ''A''"

definition index_entry :: "string \<Rightarrow> string \<Rightarrow> cJSON" where
  "index_entry c f =
     cJSON_AddStringToObject (cJSON_AddStringToObject cJSON_CreateObject ''collection'' c)
       ''field'' f"

definition index_snapshot :: cJSON where
  "index_snapshot = add_child cJSON_CreateArray (index_entry ''c'' ''kind'')"

definition scenario_texts :: "(string \<times> cJSON) list" where
  \<open>scenario_texts =
     [(''{"_id":"a","v":1}'', doc_a),
      (''{"_id":"b","v":2}'', doc_b),
      (''{"v":3}'', doc_noid),
      (''{"_id":"a","_deleted":true}'', tombstone ''a''),
      (''{"_id":"k1","kind":"A"}'', doc_kind_A),
      (''[{"collection":"c","field":"kind"}]'', index_snapshot)]\<close>

definition scenario_env :: env where
  "scenario_env =
     \<lparr>cJSON_Parse = map_of scenario_texts,
      cJSON_PrintUnformatted =
        (\<lambda>d. case List.find (\<lambda>p. snd p = d) scenario_texts of
               Some p \<Rightarrow> fst p | None \<Rightarrow> ''null''),
      to_string_double = (\<lambda>_. ''0.000000''),
      call_validate = (\<lambda>_ _. True),
      call_count = (\<lambda>_ _. 0),
      call_find = (\<lambda>_ _ _ _ _ _. ''[]''),
      call_update = (\<lambda>_ _ _. ''[]'')\<rparr>"

definition log_file :: "string list \<Rightarrow> string" where
  "log_file frames = concat (map frame_bytes frames)"



text \<open>
  The auto-compaction scenario: 101 documents, each written a second time, which makes
  202 frames for 101 live documents; and the same log with one more frame. The frames
  are \<^verbatim>\<open>{"_id":"<id>"}\<close> with the ids \<open>x\<close>, \<open>xx\<close>, \<open>xxx\<close> and so on, and the parser of
  this scenario reads exactly the texts of that shape.
\<close>

definition doc_with_id :: "string \<Rightarrow> cJSON" where
  "doc_with_id uuid = cJSON_AddStringToObject cJSON_CreateObject ''_id'' uuid"

definition id_frame :: "string \<Rightarrow> string" where
  \<open>id_frame uuid = ''{"_id":"'' @ uuid @ ''"}''\<close>

definition parse_id_frame :: "string \<Rightarrow> cJSON option" where
  \<open>parse_id_frame text =
     (if 10 \<le> length text \<and> take 8 text = ''{"_id":"'' \<and> drop (length text - 2) text = ''"}''
      then Some (doc_with_id (take (length text - 10) (drop 8 text)))
      else None)\<close>

definition id_env :: env where
  "id_env = scenario_env\<lparr>cJSON_Parse := parse_id_frame,
                          cJSON_PrintUnformatted := (\<lambda>d. id_frame
                             (case string_behind (cJSON_GetObjectItem (Some d) ''_id'') of
                                None \<Rightarrow> [] | Some u \<Rightarrow> u))\<rparr>"

definition ids101 :: "string list" where
  "ids101 = map (\<lambda>i. replicate (Suc i) (CHR ''x'')) [0..<101]"

definition scenario3_log :: "string list" where
  "scenario3_log = map id_frame ids101 @ map id_frame ids101"

definition scenario3_dir :: engine where
  "scenario3_dir = [(''items'', log_file scenario3_log)]"

definition scenario3_recovery :: "error + db" where
  "scenario3_recovery = load_all id_env (\<lambda>_. Swap_Done) (fresh_db scenario3_dir)"

definition scenario3_dir_plus :: engine where
  "scenario3_dir_plus = [(''items'', log_file (scenario3_log @ [id_frame ''x'']))]"

text \<open>
  A store with one document; an engine whose update returns text that is not JSON; and
  the store after one update through that engine.
\<close>

definition state_after :: "error + bool \<times> db \<Rightarrow> db" where
  "state_after r = snd (projr r)"

definition one_doc_db :: db where
  "one_doc_db =
     state_after (insert_doc scenario_env ''u1'' Stream_Good (fresh_db []) ''items'' doc_a)"

definition garbage_env :: env where
  "garbage_env = scenario_env\<lparr>call_update := (\<lambda>_ _ _. ''not json'')\<rparr>"

definition null_array_db :: db where
  "null_array_db =
     state_after (update_docs garbage_env Swap_Done one_doc_db ''items''
                    (Some cJSON_CreateObject) (Some cJSON_CreateObject))"

text \<open>A document whose \<^verbatim>\<open>_id\<close> is a number, \<^verbatim>\<open>{"_id":7}\<close>.\<close>

definition doc_id_7 :: cJSON where
  "doc_id_7 = cJSON_AddNumberToObject cJSON_CreateObject ''_id'' 7"

text \<open>A store on which the field \<open>kind\<close> of collection \<open>c\<close> is registered.\<close>

definition indexed_db :: db where
  "indexed_db = (fresh_db [])\<lparr>indexed_fields := [''c'' \<mapsto> [''kind'']]\<rparr>"

text \<open>A schema on collection \<open>c\<close> and an engine whose validation rejects everything.\<close>

definition schema_db :: db where
  "schema_db = indexed_db\<lparr>schemas := [''c'' \<mapsto> cJSON_CreateObject]\<rparr>"

definition strict_env :: env where
  "strict_env = scenario_env\<lparr>call_validate := (\<lambda>_ _. False)\<rparr>"

text \<open>
  A query with two keys, \<^verbatim>\<open>{"_id":"a","v":2}\<close>; the only document under that \<^verbatim>\<open>_id\<close> has
  \<open>v = 1\<close>. And the single-key query \<^verbatim>\<open>{"kind":"A"}\<close>.
\<close>

definition query_a_v2 :: cJSON where
  "query_a_v2 = cJSON_AddNumberToObject
                  (cJSON_AddStringToObject cJSON_CreateObject ''_id'' ''a'') ''v'' 2"

definition query_kind_A :: cJSON where
  "query_kind_A = cJSON_AddStringToObject cJSON_CreateObject ''kind'' ''A''"

text \<open>
  A data directory with the collection \<open>c\<close>, one document of kind \<open>A\<close>, and the index
  metadata that registers \<open>kind\<close> on \<open>c\<close>, in the two orders in which the directory can
  be enumerated.
\<close>

definition kind_log :: "string list" where
  \<open>kind_log = [''{"_id":"k1","kind":"A"}'']\<close>

definition index_log :: "string list" where
  \<open>index_log = [''[{"collection":"c","field":"kind"}]'']\<close>

definition indexes_last_dir :: engine where
  "indexes_last_dir = [(''c'', log_file kind_log), (''_indexes'', log_file index_log)]"

definition indexes_first_dir :: engine where
  "indexes_first_dir = [(''_indexes'', log_file index_log), (''c'', log_file kind_log)]"

section \<open>Credential hashing: the code against the specified hash\<close>

lemma uint_hash_step:
  "uint (hash_step sg h c) = (uint h * 2 ^ 5 + uint h + char_value sg c) mod 2 ^ 64"
proof -
  have "hash_step sg h c = word_of_int (uint h * 2 ^ 5 + uint h + char_value sg c)"
    by (simp add: hash_step_def push_bit_eq_mult)
  then show ?thesis
    by (simp only: uint_word_of_int) simp
qed

lemma djb2_step_mod: "djb2_step h c = (h * 2 ^ 5 + h + of_char c) mod 2 ^ 64"
  by (simp add: djb2_step_def mod_add_left_eq)

lemma hash_step_byte:
  assumes "char_value sg c = of_char c"
  shows "uint (hash_step sg h c) = djb2_step (uint h) c"
  by (simp only: uint_hash_step djb2_step_mod assms)

lemma foldl_hash_step_bytes:
  assumes "\<forall>c\<in>set key. char_value sg c = of_char c"
  shows "uint (foldl (hash_step sg) h key) = foldl djb2_step (uint h) key"
  using assms by (induction key arbitrary: h) (simp_all add: hash_step_byte)

lemma char_value_byte:
  "\<not> sg \<or> (of_char c :: int) < 128 \<Longrightarrow> char_value sg c = of_char c"
  by (auto simp: char_value_def)

lemma of_char_digit: "d < 10 \<Longrightarrow> (of_char (char_of (48 + d :: nat)) :: nat) = 48 + d"
  by (simp add: of_char_of)

lemma decimal_value_snoc:
  "decimal_value (s @ [c]) = 10 * decimal_value s + (of_char c - 48)"
  by (simp add: decimal_value_def)

lemma decimal_value_to_string_nat: "decimal_value (to_string_nat n) = n"
proof (induction n rule: to_string_nat.induct)
  case (1 n)
  show ?case
  proof (cases "n < 10")
    case True
    then show ?thesis
      by (subst to_string_nat.simps) (simp add: decimal_value_def of_char_digit)
  next
    case False
    have "n mod 10 < 10" by simp
    then have d: "(of_char (char_of (48 + n mod 10)) :: nat) = 48 + n mod 10"
      by (rule of_char_digit)
    from False 1 have "decimal_value (to_string_nat (n div 10)) = n div 10" by simp
    with False d show ?thesis
      by (subst to_string_nat.simps) (simp add: decimal_value_snoc)
  qed
qed

lemma digits_to_string_nat: "list_all is_digit (to_string_nat n)"
proof (induction n rule: to_string_nat.induct)
  case (1 n)
  have "n mod 10 < 10" by simp
  then have d: "(of_char (char_of (48 + n mod 10)) :: nat) = 48 + n mod 10"
    by (rule of_char_digit)
  show ?case
  proof (cases "n < 10")
    case True
    then show ?thesis
      by (subst to_string_nat.simps) (simp add: is_digit_def of_char_digit)
  next
    case False
    with 1 have "list_all is_digit (to_string_nat (n div 10))" by simp
    with False d show ?thesis
      by (subst to_string_nat.simps) (simp add: is_digit_def)
  qed
qed

text \<open>
  Where \<^verbatim>\<open>char\<close> is unsigned, and on every key of 7-bit characters where it is signed,
  \<open>hash_key\<close> returns the decimal rendering of the specified accumulation: the digit
  string of \<open>djb2\<close>, a value below \<open>2 ^ 64\<close>.
\<close>

lemma hash_key_djb2:
  assumes "\<not> sg \<or> (\<forall>c\<in>set key. (of_char c :: int) < 128)"
  shows "hash_key sg key = to_string_nat (nat (djb2 key))"
    and "int (decimal_value (hash_key sg key)) = djb2 key"
    and "list_all is_digit (hash_key sg key)"
    and "0 \<le> djb2 key \<and> djb2 key < 2 ^ 64"
proof -
  let ?h = "foldl (hash_step sg) 5381 key"
  have bytes: "\<forall>c\<in>set key. char_value sg c = of_char c"
    using assms char_value_byte by blast
  have u: "uint (5381 :: 64 word) = 5381" by simp
  have eq: "uint ?h = djb2 key"
    by (simp only: foldl_hash_step_bytes [OF bytes] u djb2_def)
  have lo: "0 \<le> uint ?h" by simp
  have hi: "uint ?h < 2 ^ 64" using uint_lt2p [of ?h] by simp
  have n: "unat ?h = nat (djb2 key)" using eq by (simp add: unat_eq_nat_uint)
  show k: "hash_key sg key = to_string_nat (nat (djb2 key))"
    by (simp only: hash_key_def n)
  show "int (decimal_value (hash_key sg key)) = djb2 key"
    using lo eq by (simp only: k decimal_value_to_string_nat)
  show "list_all is_digit (hash_key sg key)"
    by (simp only: k digits_to_string_nat)
  from lo hi eq show "0 \<le> djb2 key \<and> djb2 key < 2 ^ 64" by simp
qed

lemma digit_chars:
  "char_of (48 :: nat) = CHR ''0''" "char_of (49 :: nat) = CHR ''1''"
  "char_of (50 :: nat) = CHR ''2''" "char_of (51 :: nat) = CHR ''3''"
  "char_of (52 :: nat) = CHR ''4''" "char_of (53 :: nat) = CHR ''5''"
  "char_of (54 :: nat) = CHR ''6''" "char_of (55 :: nat) = CHR ''7''"
  "char_of (56 :: nat) = CHR ''8''" "char_of (57 :: nat) = CHR ''9''"
  by code_simp+

lemma to_string_nat_177572: "to_string_nat 177572 = ''177572''"
  by (simp add: to_string_nat.simps digit_chars)

lemma to_string_nat_177828: "to_string_nat 177828 = ''177828''"
  by (simp add: to_string_nat.simps digit_chars)

lemma hash_high_byte_signed: "unat (foldl (hash_step True) 5381 [CHR 0xFF]) = 177572"
  by (simp add: hash_step_def char_value_def push_bit_eq_mult)

lemma djb2_high_byte: "djb2 [CHR 0xFF] = 177828"
  by (simp add: djb2_def djb2_step_def)

text \<open>
  Claim C9 takes \<open>c\<close> to be the input byte. The loop of \<open>hash_key\<close> reads the key through
  a variable of type \<^verbatim>\<open>char\<close>, and \<open>hash + c\<close> converts that \<^verbatim>\<open>char\<close> to \<^verbatim>\<open>unsigned long\<close>:
  where \<^verbatim>\<open>char\<close> is signed, as on x86-64, a byte from 128 on enters the sum
  sign-extended, as the byte minus 256. For the key that is the single byte \<open>0xFF\<close>
  \<open>hash_key\<close> returns \<open>5381 * 33 - 1 = 177572\<close>; the accumulation over the input byte
  is \<open>5381 * 33 + 255 = 177828\<close>, which is also what \<open>hash_key\<close> returns where \<^verbatim>\<open>char\<close> is
  unsigned.
\<close>

theorem hash_key_sign_extends_high_byte:
  "hash_key True [CHR 0xFF] = ''177572''
   \<and> to_string_nat (nat (djb2 [CHR 0xFF])) = ''177828''
   \<and> hash_key False [CHR 0xFF] = ''177828''"
proof -
  have a: "hash_key True [CHR 0xFF] = ''177572''"
    by (simp only: hash_key_def hash_high_byte_signed to_string_nat_177572)
  have b: "to_string_nat (nat (djb2 [CHR 0xFF])) = ''177828''"
    by (simp add: djb2_high_byte to_string_nat_177828)
  have "hash_key False [CHR 0xFF] = to_string_nat (nat (djb2 [CHR 0xFF]))"
    by (rule hash_key_djb2(1)) simp
  with a b show ?thesis by simp
qed
section \<open>The log codec: round trip and truncated tails\<close>

lemma le_bytes_value:
  assumes "n < 2 ^ 32"
  shows "n mod 256 + (256 * (n div 256 mod 256) + (65536 * (n div 256 div 256 mod 256)
           + 16777216 * (n div 256 div 256 div 256 mod 256))) = (n::nat)"
proof -
  have "n div 256 div 256 div 256 < 256"
    using assms by (simp add: div_mult2_eq [symmetric])
  then have d: "n div 256 div 256 div 256 mod 256 = n div 256 div 256 div 256" by simp
  have s: "m mod 256 + 256 * (m div 256) = m" for m :: nat by simp
  have "n mod 256 + 256 * (n div 256 mod 256 + 256 * (n div 256 div 256 mod 256
           + 256 * (n div 256 div 256 div 256 mod 256))) = n" by (simp only: d s)
  then show ?thesis by simp
qed

lemma bytes_u32_u32_bytes: "n < 2 ^ 32 \<Longrightarrow> bytes_u32 (u32_bytes n) = n"
  by (simp add: bytes_u32_def u32_bytes_def of_char_of le_bytes_value)

lemma length_u32_bytes: "length (u32_bytes n) = 4"
  by (simp add: u32_bytes_def)

lemma read_frames_Nil: "read_frames [] = []"
  by (subst read_frames.simps) simp

lemma read_frames_frame:
  "read_frames (frame_bytes p @ rest) = take (length p mod 2 ^ 32) p # read_frames rest"
proof -
  let ?n = "length p mod 2 ^ 32"
  have lt: "?n < 2 ^ 32" by simp
  have le: "?n \<le> length p" by simp
  have t: "take 4 (frame_bytes p @ rest) = u32_bytes ?n"
    by (simp add: frame_bytes_def Let_def length_u32_bytes)
  have d: "drop 4 (frame_bytes p @ rest) = take ?n p @ rest"
    by (simp add: frame_bytes_def Let_def length_u32_bytes)
  have n: "frame_bytes p @ rest \<noteq> []" "\<not> length (frame_bytes p @ rest) < 4"
    by (simp_all add: frame_bytes_def Let_def length_u32_bytes u32_bytes_def)
  have l: "length (take ?n p) = ?n" using le by simp
  show ?thesis
    by (subst read_frames.simps)
       (simp only: n t d bytes_u32_u32_bytes [OF lt] Let_def if_False,
        simp add: l le min_absorb2)
qed

lemma read_frames_incomplete: "incomplete_frame tail \<Longrightarrow> read_frames tail = []"
  by (subst read_frames.simps) (auto simp: incomplete_frame_def Let_def)

text \<open>The payload a frame carries: the first \<open>size mod 2 ^ 32\<close> bytes of the string.\<close>

lemma read_frames_concat:
  "incomplete_frame tail \<Longrightarrow>
   read_frames (concat (map frame_bytes ps) @ tail)
     = map (\<lambda>p. take (length p mod 2 ^ 32) p) ps"
  by (induction ps) (simp_all add: read_frames_incomplete read_frames_frame)

lemma take_u32_length: "length p < 2 ^ 32 \<Longrightarrow> take (length p mod 2 ^ 32) p = p"
  by simp

lemma read_frames_concat_small:
  assumes "incomplete_frame tail" and "\<forall>p\<in>set ps. length p < 2 ^ 32"
  shows "read_frames (concat (map frame_bytes ps) @ tail) = ps"
proof -
  have "map (\<lambda>p. take (length p mod 2 ^ 32) p) ps = ps"
    using assms(2) by (induction ps) (simp_all add: take_u32_length)
  with read_frames_concat [OF assms(1), of ps] show ?thesis by simp
qed

lemma incomplete_frame_Nil: "incomplete_frame []"
  by (simp add: incomplete_frame_def)

lemma map_of_update_same: "map_of (AList.update k v al) k = Some v"
  by (simp add: update_conv')

lemma file_bytes_update_same: "file_bytes (AList.update k v e) k = v"
  by (simp add: file_bytes_def map_of_update_same)

lemma file_bytes_Nil: "file_bytes [] c = []"
  by (simp add: file_bytes_def)

lemma file_bytes_append_all:
  "file_bytes (append_all e c ps) c = file_bytes e c @ concat (map frame_bytes ps)"
proof (induction ps arbitrary: e)
  case Nil
  show ?case by (simp add: append_all_def)
next
  case (Cons p ps)
  have "append_all e c (p # ps) = append_all (snd (append_frame Stream_Good e c p)) c ps"
    by (simp add: append_all_def)
  then show ?case
    by (simp add: Cons.IH append_frame_def file_bytes_update_same)
qed

lemma load_log_file_bytes:
  "map_of e c \<noteq> None \<Longrightarrow> load_log e c = read_frames (file_bytes e c)"
  by (auto simp: load_log_def file_bytes_def)

lemma load_log_absent: "map_of e c = None \<Longrightarrow> load_log e c = []"
  by (simp add: load_log_def)

lemma load_log_read_frames: "load_log e c = read_frames (file_bytes e c)"
  by (cases "map_of e c") (simp_all add: load_log_def file_bytes_def read_frames_Nil)

text \<open>
  Claim C2, as the code has it. Payloads shorter than \<open>2 ^ 32\<close> bytes, appended in order
  to a fresh log with a healthy stream, are returned by \<open>load_log\<close> exactly and in
  order; and when raw bytes that form an incomplete frame (fewer than four header
  bytes, or a four-byte header announcing more payload bytes than follow) are written
  behind them, \<open>load_log\<close> still returns exactly the payloads.
\<close>

theorem load_log_round_trip:
  assumes fresh: "map_of e c = None"
    and small: "\<forall>p\<in>set ps. length p < 2 ^ 32"
    and tail: "incomplete_frame tail"
  shows "load_log (append_all e c ps) c = ps
       \<and> load_log (write_raw (append_all e c ps) c tail) c = ps"
proof -
  have f: "file_bytes e c = []" using fresh by (simp add: file_bytes_def)
  have b: "file_bytes (append_all e c ps) c = concat (map frame_bytes ps)"
    by (simp add: file_bytes_append_all f)
  have "read_frames (concat (map frame_bytes ps) @ []) = ps"
    by (rule read_frames_concat_small [OF incomplete_frame_Nil small])
  then have one: "load_log (append_all e c ps) c = ps"
    by (simp add: load_log_read_frames b)
  have "file_bytes (write_raw (append_all e c ps) c tail) c = concat (map frame_bytes ps) @ tail"
    by (simp add: write_raw_def file_bytes_update_same b)
  then have two: "load_log (write_raw (append_all e c ps) c tail) c = ps"
    by (simp add: load_log_read_frames read_frames_concat_small [OF tail small])
  from one two show ?thesis by simp
qed

text \<open>
  The corrupt-tail scenario of the specification: one payload, then the raw bytes
  \<^verbatim>\<open>01 00 00 00\<close> with no payload byte behind them.
\<close>

theorem load_log_round_trip_witness:
  "load_log (append_all [] ''items'' [''{}'', ''[1]'']) ''items'' = [''{}'', ''[1]'']
   \<and> load_log (write_raw (append_all [] ''items'' [''{}'', ''[1]'']) ''items''
         [char_of (1::nat), char_of (0::nat), char_of (0::nat), char_of (0::nat)]) ''items''
       = [''{}'', ''[1]'']"
proof -
  have fresh: "map_of ([] :: engine) ''items'' = None" by simp
  have small: "\<forall>p\<in>set [''{}'', ''[1]'']. length p < 2 ^ 32" by simp
  have tail: "incomplete_frame
      [char_of (1::nat), char_of (0::nat), char_of (0::nat), char_of (0::nat)]"
    by (simp add: incomplete_frame_def bytes_u32_def)
  show ?thesis by (rule load_log_round_trip [OF fresh small tail])
qed

text \<open>
  Claim C2 as stated quantifies over every payload string. A payload of exactly
  \<open>2 ^ 32\<close> bytes gets the length header 0 and no payload byte, so \<open>load_log\<close> returns the
  empty string in its place.
\<close>

theorem load_log_round_trip_counterexample:
  "fst (append_frame Stream_Good [] ''c'' (replicate (2 ^ 32) (CHR ''a'')))
   \<and> load_log (append_all [] ''c'' [replicate (2 ^ 32) (CHR ''a'')]) ''c'' = [[]]
   \<and> load_log (append_all [] ''c'' [replicate (2 ^ 32) (CHR ''a'')]) ''c''
       \<noteq> [replicate (2 ^ 32) (CHR ''a'')]"
proof -
  let ?P = "replicate (2 ^ 32) (CHR ''a'')"
  have "read_frames (frame_bytes ?P @ []) = take (length ?P mod 2 ^ 32) ?P # read_frames []"
    by (rule read_frames_frame)
  then have r: "read_frames (frame_bytes ?P) = [[]]"
    by (simp add: read_frames_Nil)
  have "file_bytes (append_all [] ''c'' [?P]) ''c'' = frame_bytes ?P"
    by (simp add: file_bytes_append_all file_bytes_Nil)
  then have l: "load_log (append_all [] ''c'' [?P]) ''c'' = [[]]"
    by (simp only: load_log_read_frames r)
  have ne: "?P \<noteq> []" by (simp add: replicate_empty)
  have a: "fst (append_frame Stream_Good [] ''c'' ?P)" by (simp add: append_frame_def)
  from a l ne show ?thesis by simp
qed

section \<open>Recovery replays the log\<close>

lemma child_foldl_add_child: "child (foldl add_child a ds) = child a @ ds"
  by (induction ds arbitrary: a) (simp_all add: add_child_def)

lemma child_collection_arr:
  "child (foldl (\<lambda>a d. add_child a d) cJSON_CreateArray ds) = ds"
  by (simp add: child_foldl_add_child cJSON_CreateArray_def)

lemma update_custom_index_frame [simp]:
  "storage (update_custom_index env s c d a) = storage s"
  "memory_store (update_custom_index env s c d a) = memory_store s"
  "id_indexes (update_custom_index env s c d a) = id_indexes s"
  "schemas (update_custom_index env s c d a) = schemas s"
  "indexed_fields (update_custom_index env s c d a) = indexed_fields s"
  "auth_cache (update_custom_index env s c d a) = auth_cache s"
  by (simp_all add: update_custom_index_def split: option.splits)

lemma index_item_frame [simp]:
  "storage (index_item env c s d) = storage s"
  "memory_store (index_item env c s d) = memory_store s"
  "schemas (index_item env c s d) = schemas s"
  "indexed_fields (index_item env c s d) = indexed_fields s"
  "auth_cache (index_item env c s d) = auth_cache s"
  by (simp_all add: index_item_def Let_def split: option.splits)

lemma foldl_index_item_frame [simp]:
  "storage (foldl (index_item env c) s ds) = storage s"
  "memory_store (foldl (index_item env c) s ds) = memory_store s"
  "schemas (foldl (index_item env c) s ds) = schemas s"
  "indexed_fields (foldl (index_item env c) s ds) = indexed_fields s"
  "auth_cache (foldl (index_item env c) s ds) = auth_cache s"
  by (induction ds arbitrary: s) simp_all

lemma rebuild_index_frame [simp]:
  "storage (rebuild_index env s c a) = storage s"
  "memory_store (rebuild_index env s c a) = memory_store s"
  "schemas (rebuild_index env s c a) = schemas s"
  "indexed_fields (rebuild_index env s c a) = indexed_fields s"
  "auth_cache (rebuild_index env s c a) = auth_cache s"
  by (simp_all add: rebuild_index_def)

lemma compact_collection_frame [simp]:
  "memory_store (snd (compact_collection env io s c)) = memory_store s"
  "id_indexes (snd (compact_collection env io s c)) = id_indexes s"
  "custom_indexes (snd (compact_collection env io s c)) = custom_indexes s"
  "schemas (snd (compact_collection env io s c)) = schemas s"
  "indexed_fields (snd (compact_collection env io s c)) = indexed_fields s"
  "auth_cache (snd (compact_collection env io s c)) = auth_cache s"
  by (simp_all add: compact_collection_def Let_def split: option.splits)

lemma map_of_compact_log_other:
  "n \<noteq> c \<Longrightarrow> map_of (snd (compact_log io e c docs)) n = map_of e n"
  by (cases io) (simp_all add: compact_log_def update_conv')

lemma map_of_compact_collection_other:
  "n \<noteq> c \<Longrightarrow> map_of (storage (snd (compact_collection env io s c))) n = map_of (storage s) n"
  by (simp add: compact_collection_def Let_def map_of_compact_log_other split: option.splits)

text \<open>The data phase of recovery refines the fold of the specification.\<close>

lemma replay_entry_schemas_other:
  "name \<noteq> ''_schemas'' \<Longrightarrow> fst (replay_entry env name st l) = fst st"
  by (simp add: replay_entry_def split: option.splits)

lemma foldl_replay_entry_schemas:
  "name \<noteq> ''_schemas'' \<Longrightarrow> fst (foldl (replay_entry env name) st ls) = fst st"
  by (induction ls arbitrary: st) (simp_all add: replay_entry_schemas_other)

lemma replay_entry_refines:
  assumes "name \<noteq> ''_schemas''" "distinct (map fst (snd st))"
  shows "distinct (map fst (snd (replay_entry env name st l)))
       \<and> map_of (snd (replay_entry env name st l)) = apply_frame env (map_of (snd st)) l"
  using assms
  by (auto simp: replay_entry_def apply_frame_def distinct_update distinct_delete
                 update_conv' delete_conv' split: option.splits)

lemma foldl_replay_entry_refines:
  assumes "name \<noteq> ''_schemas''" "distinct (map fst (snd st))"
  shows "distinct (map fst (snd (foldl (replay_entry env name) st ls)))
       \<and> map_of (snd (foldl (replay_entry env name) st ls))
           = foldl (apply_frame env) (map_of (snd st)) ls"
  using assms
proof (induction ls arbitrary: st)
  case Nil
  then show ?case by simp
next
  case (Cons l ls)
  from replay_entry_refines [OF Cons.prems, of env l]
  have d: "distinct (map fst (snd (replay_entry env name st l)))"
    and m: "map_of (snd (replay_entry env name st l)) = apply_frame env (map_of (snd st)) l"
    by simp_all
  from Cons.IH [OF Cons.prems(1) d] m show ?case by simp
qed

lemma schemas_replay_entry_empty:
  "snd (replay_entry env ''_schemas'' st l) = snd st"
  by (simp add: replay_entry_def split: option.splits)

lemma schemas_foldl_replay_entry_empty:
  "snd (foldl (replay_entry env ''_schemas'') st ls) = snd st"
  by (induction ls arbitrary: st) (simp_all add: schemas_replay_entry_empty)


lemma load_log_cong: "map_of e n = map_of e' n \<Longrightarrow> load_log e n = load_log e' n"
  by (simp add: load_log_def)

lemma load_collection_other:
  assumes "load_collection env io s name = Inr s'" and "n \<noteq> name"
  shows "memory_store s' n = memory_store s n \<and> map_of (storage s') n = map_of (storage s) n"
  using assms
  by (auto simp: load_collection_def Let_def map_of_compact_collection_other
           split: if_splits sum.splits)

lemma load_collection_self:
  assumes "load_collection env io s name = Inr s'"
    and "name \<noteq> ''_indexes''" and "name \<noteq> ''_schemas''"
  shows "\<exists>arr. memory_store s' name = Some (Some arr)
           \<and> child arr = map snd (snd (foldl (replay_entry env name) (schemas s, [])
                                          (load_log (storage s) name)))"
  using assms
  by (auto simp: load_collection_def Let_def child_collection_arr
           split: if_splits sum.splits)

lemma fold_result_append:
  "fold_result f (xs @ ys) s =
     (case fold_result f xs s of Inl e \<Rightarrow> Inl e | Inr s1 \<Rightarrow> fold_result f ys s1)"
  by (induction xs arbitrary: s) (simp_all split: sum.splits)

lemma fold_load_collection_other:
  assumes "fold_result (load_collection env io) names s = Inr s'" and "n \<notin> set names"
  shows "memory_store s' n = memory_store s n \<and> map_of (storage s') n = map_of (storage s) n"
  using assms
proof (induction names arbitrary: s)
  case Nil
  then show ?case by simp
next
  case (Cons a names)
  from Cons.prems(1) obtain s1 where a: "load_collection env io s a = Inr s1"
    and r: "fold_result (load_collection env io) names s1 = Inr s'"
    by (auto split: sum.splits)
  from Cons.prems(2) have "n \<noteq> a" "n \<notin> set names" by auto
  with load_collection_other [OF a] Cons.IH [OF r] show ?case by simp
qed

lemma load_all_split:
  assumes "load_all env io s = Inr s'" and "C \<in> set (list_collections (storage s))"
    and "distinct (list_collections (storage s))"
  shows "\<exists>s1 s2. load_collection env io s1 C = Inr s2
           \<and> memory_store s1 C = memory_store s C
           \<and> map_of (storage s1) C = map_of (storage s) C
           \<and> memory_store s' C = memory_store s2 C
           \<and> map_of (storage s') C = map_of (storage s2) C"
proof -
  from assms(2) obtain pre post where n: "list_collections (storage s) = pre @ C # post"
    by (auto dest: split_list)
  with assms(3) have d: "C \<notin> set pre" "C \<notin> set post" by auto
  from assms(1) n have "fold_result (load_collection env io) (pre @ C # post) s = Inr s'"
    by (simp add: load_all_def)
  then obtain s1 s2 where p: "fold_result (load_collection env io) pre s = Inr s1"
    and c: "load_collection env io s1 C = Inr s2"
    and q: "fold_result (load_collection env io) post s2 = Inr s'"
    by (auto simp: fold_result_append split: sum.splits)
  from fold_load_collection_other [OF p d(1)] fold_load_collection_other [OF q d(2)] c
  show ?thesis by auto
qed

lemma ran_card_alist:
  assumes "distinct (map fst al)"
  shows "set (map snd al) = ran (map_of al) \<and> length al = card (dom (map_of al))"
proof -
  have "card (dom (map_of al)) = card (set (map fst al))"
    by (simp add: dom_map_of_conv_image_fst)
  also have "\<dots> = length (map fst al)" using assms by (rule distinct_card)
  finally show ?thesis using assms by (simp add: ran_distinct)
qed

lemma load_log_log_file:
  "map_of e c = Some (log_file frames) \<Longrightarrow> list_all (\<lambda>p. length p < 4294967296) frames
    \<Longrightarrow> load_log e c = frames"
  using read_frames_concat_small [OF incomplete_frame_Nil, of frames]
  by (simp add: load_log_def log_file_def list_all_iff)

lemma load_collection_returns:
  assumes "name \<noteq> ''_indexes''" and "name \<noteq> ''_auth''"
  shows "\<exists>s'. load_collection env io s name = Inr s'"
  using assms by (simp add: load_collection_def Let_def)

lemma fold_load_collection_returns:
  assumes "''_indexes'' \<notin> set names" and "''_auth'' \<notin> set names"
  shows "\<exists>s'. fold_result (load_collection env io) names s = Inr s'"
  using assms
proof (induction names arbitrary: s)
  case Nil
  show ?case by simp
next
  case (Cons a names)
  then have "a \<noteq> ''_indexes''" "a \<noteq> ''_auth''" by auto
  from load_collection_returns [OF this] obtain s1
    where "load_collection env io s a = Inr s1" by blast
  with Cons show ?case by simp
qed

lemma load_all_returns:
  assumes "''_indexes'' \<notin> set (list_collections (storage s))"
    and "''_auth'' \<notin> set (list_collections (storage s))"
  shows "\<exists>s'. load_all env io s = Inr s'"
  unfolding load_all_def by (rule fold_load_collection_returns [OF assms])



lemma replay_log_extra_tombstone:
  assumes "cJSON_Parse env t = Some item"
    and "string_behind (cJSON_GetObjectItem (Some item) ''_id'') = Some uuid"
    and "cJSON_IsTrue (cJSON_GetObjectItem (Some item) ''_deleted'')"
    and "replay_log env frames uuid = None"
  shows "replay_log env (frames @ [t]) = replay_log env frames"
  using assms by (auto simp: replay_log_def apply_frame_def)

lemma array_items_Some: "array_items (Some a) = child a"
  by (simp add: array_items_def)

lemma map_of_compact_log_same:
  "map_of (snd (compact_log io e c docs)) c
     = (if io = Swap_Done then Some (log_file docs) else map_of e c)"
  by (cases io) (simp_all add: compact_log_def update_conv' log_file_def)

lemma compact_collection_storage:
  "memory_store s c = Some arr \<Longrightarrow>
   map_of (storage (snd (compact_collection env io s c))) c
     = (if io = Swap_Done
        then Some (log_file (map (cJSON_PrintUnformatted env) (array_items arr)))
        else map_of (storage s) c)"
  by (simp add: compact_collection_def Let_def map_of_compact_log_same)

lemma load_collection_storage:
  assumes "load_collection env io s name = Inr s'"
    and "name \<noteq> ''_indexes''" and "name \<noteq> ''_schemas''"
  shows "\<exists>arr. memory_store s' name = Some (Some arr)
           \<and> map_of (storage s') name
               = (if length (load_log (storage s) name) > length (child arr) * 2
                     \<and> length (child arr) > 100 \<and> io name = Swap_Done
                  then Some (log_file (map (cJSON_PrintUnformatted env) (child arr)))
                  else map_of (storage s) name)"
  using assms
  by (auto simp: load_collection_def Let_def child_collection_arr compact_collection_storage
                 array_items_Some
           split: if_splits sum.splits)

lemma length_read_frames_log_file: "length (read_frames (log_file ps)) = length ps"
  using read_frames_concat [OF incomplete_frame_Nil, of ps] by (simp add: log_file_def)

text \<open>Recovery returns on every directory whose metadata it can read.\<close>

lemma load_index_entry_returns:
  "wf_index_entry item \<Longrightarrow> \<exists>r'. load_index_entry r item = Inr r'"
  by (auto simp: wf_index_entry_def load_index_entry_def Let_def std_string_def
           split: option.splits)

lemma fold_load_index_entry_returns:
  "list_all wf_index_entry items \<Longrightarrow> \<exists>r'. fold_result load_index_entry items r = Inr r'"
proof (induction items arbitrary: r)
  case Nil
  show ?case by simp
next
  case (Cons a items)
  then have "wf_index_entry a" "list_all wf_index_entry items" by simp_all
  from load_index_entry_returns [OF this(1), of r] obtain r1
    where "load_index_entry r a = Inr r1" by blast
  with Cons.IH [OF \<open>list_all wf_index_entry items\<close>, of r1] show ?case by simp
qed

lemma load_index_frame_returns:
  "wf_index_frame env frame \<Longrightarrow> \<exists>r'. load_index_frame env r frame = Inr r'"
  by (auto simp: wf_index_frame_def load_index_frame_def fold_load_index_entry_returns
           split: option.splits)

lemma fold_load_index_frame_returns:
  "list_all (wf_index_frame env) frames
     \<Longrightarrow> \<exists>r'. fold_result (load_index_frame env) frames r = Inr r'"
proof (induction frames arbitrary: r)
  case Nil
  show ?case by simp
next
  case (Cons a frames)
  then have "wf_index_frame env a" "list_all (wf_index_frame env) frames" by simp_all
  from load_index_frame_returns [OF this(1), of r] obtain r1
    where "load_index_frame env r a = Inr r1" by blast
  with Cons.IH [OF \<open>list_all (wf_index_frame env) frames\<close>, of r1] show ?case by simp
qed

lemma load_auth_item_returns:
  "wf_auth_item item \<Longrightarrow> \<exists>c'. load_auth_item c item = Inr c'"
  by (auto simp: wf_auth_item_def load_auth_item_def Let_def std_string_def
           split: option.splits)

lemma fold_load_auth_item_returns:
  "list_all wf_auth_item items \<Longrightarrow> \<exists>c'. fold_result load_auth_item items c = Inr c'"
proof (induction items arbitrary: c)
  case Nil
  show ?case by simp
next
  case (Cons a items)
  then have "wf_auth_item a" "list_all wf_auth_item items" by simp_all
  from load_auth_item_returns [OF this(1), of c] obtain c1
    where "load_auth_item c a = Inr c1" by blast
  with Cons.IH [OF \<open>list_all wf_auth_item items\<close>, of c1] show ?case by simp
qed

lemma load_collection_returns_wf:
  assumes "name = ''_indexes'' \<longrightarrow> list_all (wf_index_frame env) (load_log (storage s) name)"
    and "name = ''_auth'' \<longrightarrow>
           (\<forall>doc\<in>ran (replay_log env (load_log (storage s) name)). wf_auth_item doc)"
  shows "\<exists>s'. load_collection env io s name = Inr s'"
proof (cases "name = ''_indexes''")
  case True
  with assms(1) fold_load_index_frame_returns
    [of env "load_log (storage s) name" "indexed_fields s"]
  show ?thesis by (auto simp: load_collection_def)
next
  case False
  show ?thesis
  proof (cases "name = ''_auth''")
    case notauth: False
    with False show ?thesis by (simp add: load_collection_returns)
  next
    case True
    let ?al = "snd (foldl (replay_entry env name) (schemas s, []) (load_log (storage s) name))"
    have ns: "name \<noteq> ''_schemas''" using True by simp
    from foldl_replay_entry_refines [OF ns, of "(schemas s, [])" env "load_log (storage s) name"]
    have d: "distinct (map fst ?al)"
      and r: "map_of ?al = replay_log env (load_log (storage s) name)"
      by (simp_all add: replay_log_def)
    from ran_card_alist [OF d] r
    have "set (map snd ?al) = ran (replay_log env (load_log (storage s) name))" by simp
    with assms(2) True have "list_all wf_auth_item (map snd ?al)"
      by (simp add: list_all_iff)
    from fold_load_auth_item_returns [OF this, of "auth_cache s"]
    obtain c' where "fold_result load_auth_item (map snd ?al) (auth_cache s) = Inr c'"
      by blast
    then show ?thesis
      using True
      by (simp add: load_collection_def Let_def child_collection_arr)
  qed
qed

lemma fold_load_collection_returns_wf:
  assumes "distinct names"
    and "\<forall>n\<in>set names. map_of (storage s) n = map_of e n"
    and "list_all (wf_index_frame env) (load_log e ''_indexes'')"
    and "\<forall>doc\<in>ran (replay_log env (load_log e ''_auth'')). wf_auth_item doc"
  shows "\<exists>s'. fold_result (load_collection env io) names s = Inr s'"
  using assms(1,2)
proof (induction names arbitrary: s)
  case Nil
  show ?case by simp
next
  case (Cons a names)
  have l: "load_log (storage s) a = load_log e a"
    using Cons.prems(2) by (simp add: load_log_def)
  have "\<exists>s1. load_collection env io s a = Inr s1"
    by (rule load_collection_returns_wf) (use l assms(3,4) in auto)
  then obtain s1 where a: "load_collection env io s a = Inr s1" ..
  have "\<forall>n\<in>set names. map_of (storage s1) n = map_of e n"
  proof
    fix n assume n: "n \<in> set names"
    with Cons.prems(1) have "n \<noteq> a" by auto
    from load_collection_other [OF a this] Cons.prems(2) n
    show "map_of (storage s1) n = map_of e n" by simp
  qed
  moreover from Cons.prems(1) have "distinct names" by simp
  ultimately have "\<exists>s'. fold_result (load_collection env io) names s1 = Inr s'"
    by (rule Cons.IH [rotated])
  with a show ?case by simp
qed

lemma load_all_returns_wf:
  assumes "distinct (list_collections e)"
    and "list_all (wf_index_frame env) (load_log e ''_indexes'')"
    and "\<forall>doc\<in>ran (replay_log env (load_log e ''_auth'')). wf_auth_item doc"
  shows "\<exists>s'. load_all env io (fresh_db e) = Inr s'"
proof -
  have st: "storage (fresh_db e) = e" by (simp add: fresh_db_def)
  show ?thesis
    unfolding load_all_def st
    by (rule fold_load_collection_returns_wf [OF assms(1) _ assms(2,3)]) (simp add: st)
qed

lemma load_all_collection:
  assumes names: "distinct (list_collections e)"
    and C: "C \<in> set (list_collections e)"
    and nonreserved: "C \<noteq> ''_indexes''" "C \<noteq> ''_schemas''"
    and returns: "load_all env io (fresh_db e) = Inr s'"
  shows "\<exists>arr al. memory_store s' C = Some (Some arr)
          \<and> child arr = map snd al \<and> distinct (map fst al)
          \<and> map_of al = replay_log env (load_log e C)
          \<and> map_of (storage s') C
              = (if length (load_log e C) > length (child arr) * 2
                    \<and> length (child arr) > 100 \<and> io C = Swap_Done
                 then Some (log_file (map (cJSON_PrintUnformatted env) (child arr)))
                 else map_of e C)"
proof -
  have st: "storage (fresh_db e) = e" by (simp add: fresh_db_def)
  have C': "C \<in> set (list_collections (storage (fresh_db e)))" using C by (simp add: st)
  have names': "distinct (list_collections (storage (fresh_db e)))" using names by (simp add: st)
  from load_all_split [OF returns C' names']
  obtain s1 s2 where c: "load_collection env io s1 C = Inr s2"
    and f: "map_of (storage s1) C = map_of e C"
    and m: "memory_store s' C = memory_store s2 C"
    and g: "map_of (storage s') C = map_of (storage s2) C"
    by (auto simp: st)
  have l: "load_log (storage s1) C = load_log e C" using f by (rule load_log_cong)
  let ?al = "snd (foldl (replay_entry env C) (schemas s1, []) (load_log (storage s1) C))"
  from load_collection_self [OF c nonreserved]
  obtain arr where a: "memory_store s2 C = Some (Some arr)" and ch: "child arr = map snd ?al"
    by auto
  from load_collection_storage [OF c nonreserved] a
  have b: "map_of (storage s2) C
               = (if length (load_log e C) > length (child arr) * 2
                     \<and> length (child arr) > 100 \<and> io C = Swap_Done
                  then Some (log_file (map (cJSON_PrintUnformatted env) (child arr)))
                  else map_of e C)"
    by (auto simp: l f)
  from foldl_replay_entry_refines [OF nonreserved(2), of "(schemas s1, [])" env "load_log e C"]
  have d: "distinct (map fst ?al)" and r: "map_of ?al = replay_log env (load_log e C)"
    by (simp_all add: l replay_log_def)
  from a m ch d r b g show ?thesis by auto
qed



section \<open>The auto-compaction heuristic\<close>

lemma collection_items_Some: "memory_store s c = Some (Some arr) \<Longrightarrow> collection_items s c = child arr"
  by (simp add: collection_items_def array_items_def)

text \<open>
  Claim C8, as the code has it. At the end of recovery the log of a collection held in
  memory is replaced by its compaction exactly when its frame count is strictly
  greater than twice its live document count and the live document count is strictly
  greater than 100 (and the rename succeeds); otherwise the log file is left as it
  was. After a compaction the log has one frame per live document. So a log that
  rebuilds 101 live documents is cut down to 101 frames when it has more than 202
  frames, and keeps its frames when it has 202 or fewer. Recovery returns such a state
  on every directory whose \<^verbatim>\<open>_indexes\<close> and \<^verbatim>\<open>_auth\<close> metadata it can read.
\<close>

theorem auto_compaction_heuristic:
  assumes names: "distinct (list_collections e)"
    and C: "C \<in> set (list_collections e)"
    and nonreserved: "C \<noteq> ''_indexes''" "C \<noteq> ''_schemas''"
  shows "(list_all (wf_index_frame env) (load_log e ''_indexes'')
          \<and> (\<forall>doc\<in>ran (replay_log env (load_log e ''_auth'')). wf_auth_item doc)
         \<longrightarrow> (\<exists>s'. load_all env io (fresh_db e) = Inr s'))
       \<and> (\<forall>s'. load_all env io (fresh_db e) = Inr s' \<longrightarrow>
            map_of (storage s') C
              = (if length (load_log e C) > length (collection_items s' C) * 2
                    \<and> length (collection_items s' C) > 100 \<and> io C = Swap_Done
                 then Some (log_file (map (cJSON_PrintUnformatted env) (collection_items s' C)))
                 else map_of e C)
            \<and> length (load_log (storage s') C)
                = (if length (load_log e C) > length (collection_items s' C) * 2
                      \<and> length (collection_items s' C) > 100 \<and> io C = Swap_Done
                   then length (collection_items s' C)
                   else length (load_log e C)))"
proof -
  have total: "list_all (wf_index_frame env) (load_log e ''_indexes'')
          \<and> (\<forall>doc\<in>ran (replay_log env (load_log e ''_auth'')). wf_auth_item doc)
         \<longrightarrow> (\<exists>s'. load_all env io (fresh_db e) = Inr s')"
    using load_all_returns_wf [OF names] by blast
  have right: "map_of (storage s') C
              = (if length (load_log e C) > length (collection_items s' C) * 2
                    \<and> length (collection_items s' C) > 100 \<and> io C = Swap_Done
                 then Some (log_file (map (cJSON_PrintUnformatted env) (collection_items s' C)))
                 else map_of e C)
            \<and> length (load_log (storage s') C)
                = (if length (load_log e C) > length (collection_items s' C) * 2
                      \<and> length (collection_items s' C) > 100 \<and> io C = Swap_Done
                   then length (collection_items s' C)
                   else length (load_log e C))"
    if returns: "load_all env io (fresh_db e) = Inr s'" for s'
  proof -
    from load_all_collection [OF names C nonreserved returns] obtain arr
      where a: "memory_store s' C = Some (Some arr)"
        and b: "map_of (storage s') C
                = (if length (load_log e C) > length (child arr) * 2
                      \<and> length (child arr) > 100 \<and> io C = Swap_Done
                   then Some (log_file (map (cJSON_PrintUnformatted env) (child arr)))
                   else map_of e C)"
      by blast
    have i: "collection_items s' C = child arr" using a by (rule collection_items_Some)
    have "length (load_log (storage s') C)
            = (if length (load_log e C) > length (child arr) * 2
                  \<and> length (child arr) > 100 \<and> io C = Swap_Done
               then length (child arr)
               else length (load_log e C))"
      using b by (auto simp: load_log_def length_read_frames_log_file split: option.splits)
    with b show ?thesis by (simp only: i)
  qed
  from total right show ?thesis by blast
qed

text \<open>
  The scenario of the specification in its literal numbers: 202 frames that rebuild
  101 live documents.
\<close>

lemma parse_id_frame: "parse_id_frame (id_frame u) = Some (doc_with_id u)"
  by (simp add: parse_id_frame_def id_frame_def)

lemma doc_with_id_id:
  "string_behind (cJSON_GetObjectItem (Some (doc_with_id u)) ''_id'') = Some u"
  "\<not> cJSON_IsTrue (cJSON_GetObjectItem (Some (doc_with_id u)) ''_deleted'')"
  by (simp_all add: doc_with_id_def cJSON_AddStringToObject_def cJSON_AddItemToObject_def
        add_child_def set_key_def cJSON_CreateObject_def cJSON_CreateString_def
        cJSON_GetObjectItem_def string_behind_def cJSON_IsTrue_def
        case_insensitive_equal_def tolower_def)

lemma apply_id_frame: "apply_frame id_env m (id_frame u) = m(u \<mapsto> doc_with_id u)"
  by (simp add: apply_frame_def id_env_def parse_id_frame doc_with_id_id)

lemma dom_foldl_apply_id_frame:
  "dom (foldl (apply_frame id_env) m (map id_frame us)) = dom m \<union> set us"
  by (induction us arbitrary: m) (auto simp: apply_id_frame)

lemma dom_replay_id_frames: "dom (replay_log id_env (map id_frame us)) = set us"
  by (simp add: replay_log_def dom_foldl_apply_id_frame)

lemma distinct_ids101: "distinct ids101"
proof -
  have "inj_on (\<lambda>i. replicate (Suc i) (CHR ''x'')) (set [0..<101])"
    by (rule inj_onI) (metis length_replicate nat.inject)
  then show ?thesis by (simp add: ids101_def distinct_map)
qed

lemma length_ids101: "length ids101 = 101"
  by (simp add: ids101_def)

lemma card_ids101: "card (set ids101) = 101"
  using distinct_card [OF distinct_ids101] by (simp add: length_ids101)

lemma length_scenario3_log: "length scenario3_log = 202"
  by (simp add: scenario3_log_def length_ids101)

lemma small_ids101: "u \<in> set ids101 \<Longrightarrow> length (id_frame u) < 4294967296"
  by (auto simp: ids101_def id_frame_def)

lemma scenario3_dir_log: "load_log scenario3_dir ''items'' = scenario3_log"
  by (rule load_log_log_file)
     (auto simp: scenario3_dir_def scenario3_log_def list_all_iff small_ids101)

lemma dom_replay_scenario3: "dom (replay_log id_env scenario3_log) = set ids101"
proof -
  have "dom (replay_log id_env (map id_frame (ids101 @ ids101))) = set (ids101 @ ids101)"
    by (rule dom_replay_id_frames)
  then show ?thesis by (simp add: scenario3_log_def)
qed

text \<open>
  Claim C8 as stated promises 101 frames after reopening the scenario of 101 live
  documents. With the 202 frames of that scenario the test \<open>202 > 2 * 101\<close> fails, no
  compaction happens and the log keeps its 202 frames.
\<close>

theorem auto_compaction_scenario_counterexample:
  "\<not> isl scenario3_recovery
   \<and> length (collection_items (projr scenario3_recovery) ''items'') = 101
   \<and> length (load_log scenario3_dir ''items'') = 202
   \<and> length (load_log (storage (projr scenario3_recovery)) ''items'') = 202
   \<and> length (load_log (storage (projr scenario3_recovery)) ''items'') \<noteq> 101"
proof -
  have names: "distinct (list_collections scenario3_dir)"
    and C: "''items'' \<in> set (list_collections scenario3_dir)"
    by (simp_all add: list_collections_def scenario3_dir_def)
  have n1: "''items'' \<noteq> ''_indexes''" and n2: "''items'' \<noteq> ''_schemas''" by simp_all
  have "\<exists>s'. load_all id_env (\<lambda>_. Swap_Done) (fresh_db scenario3_dir) = Inr s'"
    by (rule load_all_returns)
       (simp_all add: fresh_db_def list_collections_def scenario3_dir_def)
  then obtain s' where r: "load_all id_env (\<lambda>_. Swap_Done) (fresh_db scenario3_dir) = Inr s'" ..
  then have p: "scenario3_recovery = Inr s'" by (simp add: scenario3_recovery_def)
  from load_all_collection [OF names C n1 n2 r] obtain arr al
    where a: "memory_store s' ''items'' = Some (Some arr)" and ch: "child arr = map snd al"
      and d: "distinct (map fst al)"
      and m: "map_of al = replay_log id_env (load_log scenario3_dir ''items'')"
      and f: "map_of (storage s') ''items''
              = (if length (load_log scenario3_dir ''items'') > length (child arr) * 2
                    \<and> length (child arr) > 100
                 then Some (log_file (map (cJSON_PrintUnformatted id_env) (child arr)))
                 else map_of scenario3_dir ''items'')"
    by auto
  from ran_card_alist [OF d] have "length al = card (dom (map_of al))" by simp
  then have live: "length (child arr) = 101"
    by (simp add: ch m scenario3_dir_log dom_replay_scenario3 card_ids101)
  have same: "map_of (storage s') ''items'' = map_of scenario3_dir ''items''"
    using f by (simp add: live scenario3_dir_log length_scenario3_log)
  have "load_log (storage s') ''items'' = load_log scenario3_dir ''items''"
    using same by (rule load_log_cong)
  then have frames: "length (load_log (storage s') ''items'') = 202"
    by (simp add: scenario3_dir_log length_scenario3_log)
  from live a have "length (collection_items s' ''items'') = 101"
    by (simp add: collection_items_Some)
  with frames show ?thesis
    by (simp add: p scenario3_dir_log length_scenario3_log)
qed


lemma x_in_ids101: "''x'' \<in> set ids101"
proof -
  have "replicate (Suc 0) (CHR ''x'') \<in> (\<lambda>i. replicate (Suc i) (CHR ''x'')) ` set [0..<101]"
    by (rule imageI) simp
  then show ?thesis by (simp add: ids101_def)
qed

lemma scenario3_dir_plus_log:
  "load_log scenario3_dir_plus ''items'' = scenario3_log @ [id_frame ''x'']"
  by (rule load_log_log_file)
     (auto simp: scenario3_dir_plus_def scenario3_log_def list_all_iff small_ids101 x_in_ids101)

lemma dom_replay_scenario3_plus:
  "dom (replay_log id_env (scenario3_log @ [id_frame ''x''])) = set ids101"
proof -
  have "dom (replay_log id_env (map id_frame (ids101 @ ids101 @ [''x''])))
          = set (ids101 @ ids101 @ [''x''])"
    by (rule dom_replay_id_frames)
  then show ?thesis using x_in_ids101 by (auto simp: scenario3_log_def)
qed

text \<open>One frame more, 203 frames for 101 live documents, and recovery compacts.\<close>

theorem auto_compaction_heuristic_witness:
  "\<exists>s'. load_all id_env (\<lambda>_. Swap_Done) (fresh_db scenario3_dir_plus) = Inr s'
     \<and> length (load_log scenario3_dir_plus ''items'') = 203
     \<and> length (collection_items s' ''items'') = 101
     \<and> map_of (storage s') ''items''
          = Some (log_file (map (cJSON_PrintUnformatted id_env) (collection_items s' ''items'')))
     \<and> length (load_log (storage s') ''items'') = 101"
proof -
  have names: "distinct (list_collections scenario3_dir_plus)"
    and C: "''items'' \<in> set (list_collections scenario3_dir_plus)"
    by (simp_all add: list_collections_def scenario3_dir_plus_def)
  have n1: "''items'' \<noteq> ''_indexes''" and n2: "''items'' \<noteq> ''_schemas''" by simp_all
  have i: "load_log scenario3_dir_plus ''_indexes'' = []"
    and a: "load_log scenario3_dir_plus ''_auth'' = []"
    by (simp_all add: load_log_def scenario3_dir_plus_def)
  have wf: "list_all (wf_index_frame id_env) (load_log scenario3_dir_plus ''_indexes'')
          \<and> (\<forall>doc\<in>ran (replay_log id_env (load_log scenario3_dir_plus ''_auth'')).
                wf_auth_item doc)"
    by (simp add: i a replay_log_def)
  note t = auto_compaction_heuristic [OF names C n1 n2, of id_env "\<lambda>_. Swap_Done"]
  from t wf obtain s' where
    r: "load_all id_env (\<lambda>_. Swap_Done) (fresh_db scenario3_dir_plus) = Inr s'"
    by blast
  from load_all_collection [OF names C n1 n2 r] obtain arr al
    where m: "memory_store s' ''items'' = Some (Some arr)" and ch: "child arr = map snd al"
      and d: "distinct (map fst al)"
      and mo: "map_of al = replay_log id_env (load_log scenario3_dir_plus ''items'')"
    by auto
  from ran_card_alist [OF d] have "length al = card (dom (map_of al))" by simp
  then have "length (child arr) = 101"
    by (simp add: ch mo scenario3_dir_plus_log dom_replay_scenario3_plus card_ids101)
  with m have live: "length (collection_items s' ''items'') = 101"
    by (simp add: collection_items_Some)
  have frames: "length (load_log scenario3_dir_plus ''items'') = 203"
    by (simp add: scenario3_dir_plus_log length_scenario3_log)
  from t r live frames show ?thesis by auto
qed

section \<open>Insert: validation, memory, append\<close>

text \<open>What \<^verbatim>\<open>Engine::append\<close> returns under each outcome of the write.\<close>

lemma fst_append_frame [simp]:
  "fst (append_frame Stream_Good e c raw)"
  "\<not> fst (append_frame Open_Fails e c raw)"
  "\<not> fst (append_frame (Write_Fails k) e c raw)"
  "fst (append_frame (Flush_Fails k) e c raw)"
  by (simp_all add: append_frame_def)

lemma insert_doc_rejected:
  "\<not> validate env s coll data \<Longrightarrow> insert_doc env generated io s coll data = Inr (False, s)"
  by (simp add: insert_doc_def)

lemma insert_doc_no_id:
  "validate env s coll data \<Longrightarrow> assign_id generated data = Inl e
     \<Longrightarrow> insert_doc env generated io s coll data = Inl e"
  by (simp add: insert_doc_def Let_def)

text \<open>The array pointer that \<open>get_collection\<close> hands to insert.\<close>

lemma fst_get_collection:
  "fst (get_collection s coll)
     = (case memory_store s coll of None \<Rightarrow> Some cJSON_CreateArray | Some a \<Rightarrow> a)"
  by (simp add: get_collection_def split: option.splits)

lemma get_collection_frame [simp]:
  "storage (snd (get_collection s coll)) = storage s"
  "schemas (snd (get_collection s coll)) = schemas s"
  "custom_indexes (snd (get_collection s coll)) = custom_indexes s"
  "indexed_fields (snd (get_collection s coll)) = indexed_fields s"
  "auth_cache (snd (get_collection s coll)) = auth_cache s"
  by (simp_all add: get_collection_def split: option.splits)

lemma insert_doc_accepted:
  assumes "validate env s coll data" and "assign_id generated data = Inr (uuid, doc)"
  shows "\<exists>s'. insert_doc env generated io s coll data
               = Inr (fst (append_frame io (storage s) coll (cJSON_PrintUnformatted env doc)), s')
       \<and> memory_store s' coll = Some (cJSON_AddItemToArray (fst (get_collection s coll)) doc)
       \<and> (\<forall>n. n \<noteq> coll \<longrightarrow> memory_store s' n = memory_store s n)
       \<and> id_indexes s' coll uuid = Some doc
       \<and> custom_indexes s'
            = custom_indexes (update_custom_index env s coll doc True)
       \<and> schemas s' = schemas s \<and> indexed_fields s' = indexed_fields s
       \<and> auth_cache s' = auth_cache s
       \<and> storage s' = snd (append_frame io (storage s) coll (cJSON_PrintUnformatted env doc))"
  using assms
  by (simp add: insert_doc_def Let_def update_custom_index_def
        get_collection_def split: option.splits)


lemma index_field_keeps_last:
  assumes "\<exists>old. idx f v = Some (old @ [doc])"
  shows "\<exists>old. index_field env doc True idx g f v = Some (old @ [doc])"
  using assms by (auto simp: index_field_def Let_def split: option.splits)

lemma index_field_adds:
  assumes "stringify env (cJSON_GetObjectItem (Some doc) f) = Some v"
  shows "\<exists>old. index_field env doc True idx f f v = Some (old @ [doc])"
  using assms by (auto simp: index_field_def Let_def split: option.splits)

lemma foldl_index_field_keeps_last:
  assumes "\<exists>old. idx f v = Some (old @ [doc])"
  shows "\<exists>old. foldl (index_field env doc True) idx fs f v = Some (old @ [doc])"
  using assms
proof (induction fs arbitrary: idx)
  case Nil
  then show ?case by simp
next
  case (Cons g fs)
  have "\<exists>old. index_field env doc True idx g f v = Some (old @ [doc])"
    using Cons.prems by (rule index_field_keeps_last)
  then have "\<exists>old. foldl (index_field env doc True) (index_field env doc True idx g) fs f v
                = Some (old @ [doc])"
    by (rule Cons.IH)
  then show ?case by simp
qed

lemma foldl_index_field_adds:
  assumes "f \<in> set fs" and "stringify env (cJSON_GetObjectItem (Some doc) f) = Some v"
  shows "\<exists>old. foldl (index_field env doc True) idx fs f v = Some (old @ [doc])"
  using assms(1)
proof (induction fs arbitrary: idx)
  case Nil
  then show ?case by simp
next
  case (Cons g fs)
  show ?case
  proof (cases "g = f")
    case True
    have "\<exists>old. index_field env doc True idx f f v = Some (old @ [doc])"
      using assms(2) by (rule index_field_adds)
    then have "\<exists>old. foldl (index_field env doc True) (index_field env doc True idx f) fs f v
                  = Some (old @ [doc])"
      by (rule foldl_index_field_keeps_last)
    with True show ?thesis by simp
  next
    case False
    with Cons.prems have "f \<in> set fs" by simp
    from Cons.IH [OF this] show ?thesis by simp
  qed
qed

lemma update_custom_index_adds:
  assumes "indexed_fields s coll = Some fs" and "f \<in> set fs"
    and "stringify env (cJSON_GetObjectItem (Some doc) f) = Some v"
  shows "\<exists>old. custom_indexes (update_custom_index env s coll doc True) coll f v
           = Some (old @ [doc])"
  using foldl_index_field_adds [OF assms(2,3)] assms(1)
  by (simp add: update_custom_index_def)

lemma collection_items_insert:
  assumes "memory_store s coll \<noteq> Some None"
  shows "array_items (cJSON_AddItemToArray (fst (get_collection s coll)) doc)
           = collection_items s coll @ [doc]"
  using assms
  by (auto simp: fst_get_collection collection_items_def array_items_def
        cJSON_AddItemToArray_def add_child_def cJSON_CreateArray_def split: option.splits)

text \<open>
  Insert on a collection that is new or whose in-memory array pointer is not null, for
  a document whose \<^verbatim>\<open>_id\<close> is absent or a string. When validation rejects, insert
  returns false and the state is unchanged in every component. When validation passes,
  insert returns what \<^verbatim>\<open>Engine::append\<close> returns, and whatever that is the document
  with its assigned \<^verbatim>\<open>_id\<close> is the new last element of the in-memory array, the primary
  index maps its \<^verbatim>\<open>_id\<close> to it, and for every registered field whose value in the
  document is a string or a number the document is the last entry of the secondary
  index under that value.
\<close>

lemma insert_doc_on_array:
  assumes id_ok: "assign_id generated data = Inr (uuid, doc)"
    and array: "memory_store s coll \<noteq> Some None"
  shows "\<exists>b s'. insert_doc env generated io s coll data = Inr (b, s')
       \<and> (b \<longleftrightarrow> validate env s coll data \<and> fst (append_frame io (storage s) coll
                                                     (cJSON_PrintUnformatted env doc)))
       \<and> (\<not> validate env s coll data \<longrightarrow> s' = s)
       \<and> (validate env s coll data \<longrightarrow>
            collection_items s' coll = collection_items s coll @ [doc]
            \<and> id_indexes s' coll uuid = Some doc
            \<and> (\<forall>fs f v. indexed_fields s coll = Some fs \<and> f \<in> set fs
                  \<and> stringify env (cJSON_GetObjectItem (Some doc) f) = Some v
                 \<longrightarrow> (\<exists>old. custom_indexes s' coll f v = Some (old @ [doc]))))"
proof (cases "validate env s coll data")
  case False
  then have "insert_doc env generated io s coll data = Inr (False, s)"
    by (rule insert_doc_rejected)
  with False show ?thesis by (intro exI [of _ False] exI [of _ s]) simp
next
  case True
  from insert_doc_accepted [OF True id_ok, of io] obtain s'
    where r: "insert_doc env generated io s coll data
                = Inr (fst (append_frame io (storage s) coll (cJSON_PrintUnformatted env doc)), s')"
      and m: "memory_store s' coll
                = Some (cJSON_AddItemToArray (fst (get_collection s coll)) doc)"
      and i: "id_indexes s' coll uuid = Some doc"
      and c: "custom_indexes s' = custom_indexes (update_custom_index env s coll doc True)"
    by blast
  have items: "collection_items s' coll = collection_items s coll @ [doc]"
    using collection_items_insert [OF array, of doc] m by (simp add: collection_items_def)
  have sec: "\<exists>old. custom_indexes s' coll f v = Some (old @ [doc])"
    if "indexed_fields s coll = Some fs" "f \<in> set fs"
       "stringify env (cJSON_GetObjectItem (Some doc) f) = Some v" for fs f v
    using update_custom_index_adds [OF that] by (simp add: c)
  from True r items i sec show ?thesis by auto
qed
section \<open>Update: the return value\<close>

lemma update_docs_absent:
  "memory_store s coll = None \<Longrightarrow> update_docs env io s coll query data = Inr (False, s)"
  by (simp add: update_docs_def)

lemma update_docs_null_array:
  "memory_store s coll = Some None \<Longrightarrow> update_docs env io s coll query data = Inl Null_String"
  by (simp add: update_docs_def print_string_def)

lemma update_docs_present:
  assumes "memory_store s coll = Some (Some arr)"
  shows "\<exists>s'. update_docs env io s coll (Some q) (Some u) = Inr (True, s')
       \<and> memory_store s' coll
            = Some (cJSON_Parse env (call_update env (cJSON_PrintUnformatted env arr)
                 (cJSON_PrintUnformatted env q) (cJSON_PrintUnformatted env u)))
       \<and> (\<forall>n. n \<noteq> coll \<longrightarrow> memory_store s' n = memory_store s n)
       \<and> schemas s' = schemas s \<and> indexed_fields s' = indexed_fields s
       \<and> auth_cache s' = auth_cache s
       \<and> (io \<noteq> Swap_Done \<longrightarrow> storage s' = storage s)"
  using assms
  by (cases io)
     (simp_all add: update_docs_def print_string_def Let_def compact_collection_def
        compact_log_def)
section \<open>Insert and update on concrete stores\<close>

lemma validate_no_schema: "schemas s coll = None \<Longrightarrow> validate env s coll data"
  by (simp add: validate_def)

lemma assign_id_doc_a: "assign_id g doc_a = Inr (''a'', doc_a)"
  by code_simp

lemma assign_id_doc_b: "assign_id g doc_b = Inr (''b'', doc_b)"
  by code_simp

lemma assign_id_doc_kind_A: "assign_id g doc_kind_A = Inr (''k1'', doc_kind_A)"
  by code_simp

lemma stringify_doc_kind_A:
  "stringify env (cJSON_GetObjectItem (Some doc_kind_A) ''kind'') = Some ''A''"
  by code_simp

lemma one_doc_db:
  "memory_store one_doc_db ''items'' = Some (Some (add_child cJSON_CreateArray doc_a))"
  "schemas one_doc_db = Map.empty"
proof -
  have v: "validate scenario_env (fresh_db []) ''items'' doc_a"
    by (rule validate_no_schema) (simp add: fresh_db_def)
  from insert_doc_accepted [where io = Stream_Good and generated = "''u1''",
         OF v assign_id_doc_a] obtain s'
    where r: "insert_doc scenario_env ''u1'' Stream_Good (fresh_db []) ''items'' doc_a
                = Inr (True, s')"
      and m: "memory_store s' ''items''
                = Some (cJSON_AddItemToArray (fst (get_collection (fresh_db []) ''items'')) doc_a)"
      and sc: "schemas s' = schemas (fresh_db [])"
    by auto
  have s: "one_doc_db = s'" by (simp add: one_doc_db_def state_after_def r)
  show "memory_store one_doc_db ''items'' = Some (Some (add_child cJSON_CreateArray doc_a))"
    by (simp add: s m fst_get_collection fresh_db_def cJSON_AddItemToArray_def)
  show "schemas one_doc_db = Map.empty"
    by (simp add: s sc fresh_db_def)
qed

lemma garbage_not_json: "cJSON_Parse garbage_env (call_update garbage_env a b c) = None"
  by code_simp

lemma null_array_db:
  "update_docs garbage_env Swap_Done one_doc_db ''items''
     (Some cJSON_CreateObject) (Some cJSON_CreateObject) = Inr (True, null_array_db)"
  "memory_store null_array_db ''items'' = Some None"
  "schemas null_array_db = Map.empty"
proof -
  from update_docs_present [OF one_doc_db(1), of garbage_env Swap_Done
         cJSON_CreateObject cJSON_CreateObject]
  obtain s' where r: "update_docs garbage_env Swap_Done one_doc_db ''items''
                        (Some cJSON_CreateObject) (Some cJSON_CreateObject) = Inr (True, s')"
    and m: "memory_store s' ''items'' = Some None"
    and sc: "schemas s' = schemas one_doc_db"
    by (auto simp: garbage_not_json)
  have s: "null_array_db = s'" by (simp add: null_array_db_def state_after_def r)
  show "update_docs garbage_env Swap_Done one_doc_db ''items''
     (Some cJSON_CreateObject) (Some cJSON_CreateObject) = Inr (True, null_array_db)"
    by (simp add: s r)
  show "memory_store null_array_db ''items'' = Some None" by (simp add: s m)
  show "schemas null_array_db = Map.empty" by (simp add: s sc one_doc_db(2))
qed

text \<open>
  Claim C10 says that every update call on a collection that exists in memory returns
  true. \<^verbatim>\<open>Db::update\<close> stores what \<^verbatim>\<open>cJSON_Parse\<close> makes of the predicate engine's answer
  without testing it. On a store with one document, an update through an engine whose
  answer does not parse returns true and leaves the null pointer as the in-memory
  array of the collection. The collection still exists in memory, and no later update
  call on it returns true, whatever the query, the update document, the engine and the
  file system: the null array prints as a null string, from which the argument of
  \<^verbatim>\<open>ffi::call_update\<close> cannot be built.
\<close>

theorem update_on_null_array_does_not_return:
  "memory_store one_doc_db ''items'' = Some (Some (add_child cJSON_CreateArray doc_a))
   \<and> update_docs garbage_env Swap_Done one_doc_db ''items''
        (Some cJSON_CreateObject) (Some cJSON_CreateObject) = Inr (True, null_array_db)
   \<and> memory_store null_array_db ''items'' = Some None
   \<and> update_docs env io null_array_db ''items'' query data = Inl Null_String"
  using one_doc_db(1) null_array_db(1,2)
        update_docs_null_array [OF null_array_db(2), of env io query data]
  by simp

text \<open>
  An update on a collection that is not in memory, and an update whose engine answer
  does not parse and whose compaction cannot rename: the first returns false and
  changes nothing, the second returns true, leaves the null array and the old log.
\<close>

lemma update_docs_scenarios:
  "update_docs garbage_env Rename_Fails (fresh_db []) ''items''
        (Some cJSON_CreateObject) (Some cJSON_CreateObject) = Inr (False, fresh_db [])
   \<and> (\<exists>s'. update_docs garbage_env Rename_Fails one_doc_db ''items''
              (Some cJSON_CreateObject) (Some cJSON_CreateObject) = Inr (True, s')
         \<and> memory_store s' ''items'' = Some None
         \<and> storage s' = storage one_doc_db)"
proof -
  have a: "memory_store (fresh_db []) ''items'' = None" by (simp add: fresh_db_def)
  have one: "update_docs garbage_env Rename_Fails (fresh_db []) ''items''
        (Some cJSON_CreateObject) (Some cJSON_CreateObject) = Inr (False, fresh_db [])"
    using a by (rule update_docs_absent)
  from update_docs_present [OF one_doc_db(1), of garbage_env Rename_Fails
         cJSON_CreateObject cJSON_CreateObject]
  have two: "\<exists>s'. update_docs garbage_env Rename_Fails one_doc_db ''items''
              (Some cJSON_CreateObject) (Some cJSON_CreateObject) = Inr (True, s')
         \<and> memory_store s' ''items'' = Some None
         \<and> storage s' = storage one_doc_db"
    by (auto simp: garbage_not_json)
  from one two show ?thesis by blast
qed

text \<open>
  An insert whose append fails inside the write, after validation passed, on a store
  with a registered field; and an insert that validation rejects.
\<close>

lemma insert_doc_scenarios:
  "(\<exists>s'. insert_doc scenario_env ''u9'' (Write_Fails 3) indexed_db ''c'' doc_kind_A
            = Inr (False, s')
        \<and> collection_items s' ''c'' = [doc_kind_A]
        \<and> id_indexes s' ''c'' ''k1'' = Some doc_kind_A
        \<and> (\<exists>old. custom_indexes s' ''c'' ''kind'' ''A'' = Some (old @ [doc_kind_A])))
   \<and> insert_doc strict_env ''u9'' Stream_Good schema_db ''c'' doc_kind_A
        = Inr (False, schema_db)"
proof -
  have arr: "memory_store indexed_db ''c'' \<noteq> Some None"
    by (simp add: indexed_db_def fresh_db_def)
  have v: "validate scenario_env indexed_db ''c'' doc_kind_A"
    by (rule validate_no_schema) (simp add: indexed_db_def fresh_db_def)
  have fs: "indexed_fields indexed_db ''c'' = Some [''kind'']"
    by (simp add: indexed_db_def)
  have items: "collection_items indexed_db ''c'' = []"
    by (simp add: collection_items_def indexed_db_def fresh_db_def)
  from insert_doc_on_array [where env = scenario_env and io = "Write_Fails 3"
         and generated = "''u9''", OF assign_id_doc_kind_A arr]
  obtain b s' where
    r: "insert_doc scenario_env ''u9'' (Write_Fails 3) indexed_db ''c'' doc_kind_A = Inr (b, s')"
    and b: "b \<longleftrightarrow> validate scenario_env indexed_db ''c'' doc_kind_A
              \<and> fst (append_frame (Write_Fails 3) (storage indexed_db) ''c''
                       (cJSON_PrintUnformatted scenario_env doc_kind_A))"
    and m: "validate scenario_env indexed_db ''c'' doc_kind_A \<longrightarrow>
            collection_items s' ''c'' = collection_items indexed_db ''c'' @ [doc_kind_A]
            \<and> id_indexes s' ''c'' ''k1'' = Some doc_kind_A
            \<and> (\<forall>fs f v. indexed_fields indexed_db ''c'' = Some fs \<and> f \<in> set fs
                  \<and> stringify scenario_env (cJSON_GetObjectItem (Some doc_kind_A) f) = Some v
                 \<longrightarrow> (\<exists>old. custom_indexes s' ''c'' f v = Some (old @ [doc_kind_A])))"
    by blast
  have "\<not> b" using b by simp
  moreover from m v fs stringify_doc_kind_A [of scenario_env]
  have "\<exists>old. custom_indexes s' ''c'' ''kind'' ''A'' = Some (old @ [doc_kind_A])"
    by auto
  ultimately have one: "\<exists>s'. insert_doc scenario_env ''u9'' (Write_Fails 3) indexed_db ''c'' doc_kind_A
            = Inr (False, s')
        \<and> collection_items s' ''c'' = [doc_kind_A]
        \<and> id_indexes s' ''c'' ''k1'' = Some doc_kind_A
        \<and> (\<exists>old. custom_indexes s' ''c'' ''kind'' ''A'' = Some (old @ [doc_kind_A]))"
    using r m v items by auto
  have nv: "\<not> validate strict_env schema_db ''c'' doc_kind_A"
    by (simp add: validate_def schema_db_def strict_env_def)
  then have two: "insert_doc strict_env ''u9'' Stream_Good schema_db ''c'' doc_kind_A
               = Inr (False, schema_db)"
    by (rule insert_doc_rejected)
  from one two show ?thesis by blast
qed

lemma assign_id_doc_id_7: "assign_id g doc_id_7 = Inl Null_String"
  by code_simp

lemma short_file_no_frame:
  "load_log (AList.update c (take 3 (frame_bytes raw)) e) c = []"
proof -
  have "length (take 3 (frame_bytes raw)) < 4" by simp
  then have "incomplete_frame (take 3 (frame_bytes raw))"
    unfolding incomplete_frame_def by (rule disjI1)
  then have "read_frames (take 3 (frame_bytes raw)) = []" by (rule read_frames_incomplete)
  then show ?thesis by (simp add: load_log_read_frames file_bytes_update_same)
qed

text \<open>
  Claim C5 says that insert returns false exactly when validation rejects the document
  or the log append fails, and that after a failed append the document is in the
  in-memory array and in the indexes. The code diverges on three inputs.

  \<^item> \<^verbatim>\<open>Engine::append\<close> returns \<^verbatim>\<open>file.good()\<close> without flushing the stream. The frame of
    a small document is still buffered then; when the write that the stream's
    destructor makes fails after three bytes, the append has failed, the log holds no
    frame of the document, and insert has returned true.
  \<^item> On the collection whose array pointer the update above has left null, an insert
    whose append fails returns false and the primary index gets the document, but
    \<^verbatim>\<open>cJSON_AddItemToArray\<close> on the null pointer adds nothing: the in-memory array
    does not hold the document.
  \<^item> For a document whose \<^verbatim>\<open>_id\<close> is a number, insert passes validation and then
    assigns the null \<^verbatim>\<open>valuestring\<close> to a \<^verbatim>\<open>std::string\<close>: it does not return.
\<close>

theorem insert_failure_semantics_diverges:
  "(\<exists>s'. insert_doc env generated (Flush_Fails 3) (fresh_db []) ''items'' doc_a
            = Inr (True, s')
        \<and> collection_items s' ''items'' = [doc_a]
        \<and> id_indexes s' ''items'' ''a'' = Some doc_a
        \<and> file_bytes (storage s') ''items''
             = take 3 (frame_bytes (cJSON_PrintUnformatted env doc_a))
        \<and> load_log (storage s') ''items'' = [])
   \<and> update_docs garbage_env Swap_Done one_doc_db ''items''
        (Some cJSON_CreateObject) (Some cJSON_CreateObject) = Inr (True, null_array_db)
   \<and> (\<exists>s'. insert_doc env generated Open_Fails null_array_db ''items'' doc_b
            = Inr (False, s')
        \<and> memory_store s' ''items'' = Some None
        \<and> collection_items s' ''items'' = []
        \<and> id_indexes s' ''items'' ''b'' = Some doc_b)
   \<and> validate env (fresh_db []) ''items'' doc_id_7
   \<and> insert_doc env generated io (fresh_db []) ''items'' doc_id_7 = Inl Null_String"
proof -
  have v0: "validate env (fresh_db []) ''items'' d" for d
    by (rule validate_no_schema) (simp add: fresh_db_def)
  from insert_doc_accepted [where io = "Flush_Fails 3" and generated = generated,
         OF v0 assign_id_doc_a] obtain s1
    where r1: "insert_doc env generated (Flush_Fails 3) (fresh_db []) ''items'' doc_a
                 = Inr (True, s1)"
      and m1: "memory_store s1 ''items''
                 = Some (cJSON_AddItemToArray (fst (get_collection (fresh_db []) ''items'')) doc_a)"
      and i1: "id_indexes s1 ''items'' ''a'' = Some doc_a"
      and f1: "storage s1 = snd (append_frame (Flush_Fails 3) (storage (fresh_db [])) ''items''
                                   (cJSON_PrintUnformatted env doc_a))"
    by auto
  have st1: "storage s1
               = AList.update ''items'' (take 3 (frame_bytes (cJSON_PrintUnformatted env doc_a))) []"
    by (simp add: f1 append_frame_def fresh_db_def file_bytes_Nil)
  have items1: "collection_items s1 ''items'' = [doc_a]"
    by (simp add: collection_items_def m1 fst_get_collection fresh_db_def array_items_def
          cJSON_AddItemToArray_def add_child_def cJSON_CreateArray_def)
  have bytes1: "file_bytes (storage s1) ''items''
                  = take 3 (frame_bytes (cJSON_PrintUnformatted env doc_a))"
    by (simp only: st1 file_bytes_update_same)
  have log1: "load_log (storage s1) ''items'' = []"
    by (simp only: st1 short_file_no_frame)
  from r1 items1 i1 bytes1 log1 have one:
    "\<exists>s'. insert_doc env generated (Flush_Fails 3) (fresh_db []) ''items'' doc_a
            = Inr (True, s')
        \<and> collection_items s' ''items'' = [doc_a]
        \<and> id_indexes s' ''items'' ''a'' = Some doc_a
        \<and> file_bytes (storage s') ''items''
             = take 3 (frame_bytes (cJSON_PrintUnformatted env doc_a))
        \<and> load_log (storage s') ''items'' = []"
    by blast
  have v2: "validate env null_array_db ''items'' doc_b"
    by (rule validate_no_schema) (simp add: null_array_db(3))
  from insert_doc_accepted [where io = Open_Fails and generated = generated,
         OF v2 assign_id_doc_b] obtain s2
    where r2: "insert_doc env generated Open_Fails null_array_db ''items'' doc_b
                 = Inr (False, s2)"
      and m2: "memory_store s2 ''items''
                 = Some (cJSON_AddItemToArray (fst (get_collection null_array_db ''items'')) doc_b)"
      and i2: "id_indexes s2 ''items'' ''b'' = Some doc_b"
    by auto
  have null2: "memory_store s2 ''items'' = Some None"
    by (simp add: m2 fst_get_collection null_array_db(2) cJSON_AddItemToArray_def)
  then have items2: "collection_items s2 ''items'' = []"
    by (simp add: collection_items_def array_items_def)
  from r2 null2 items2 i2 have two:
    "\<exists>s'. insert_doc env generated Open_Fails null_array_db ''items'' doc_b
            = Inr (False, s')
        \<and> memory_store s' ''items'' = Some None
        \<and> collection_items s' ''items'' = []
        \<and> id_indexes s' ''items'' ''b'' = Some doc_b"
    by blast
  have three: "insert_doc env generated io (fresh_db []) ''items'' doc_id_7 = Inl Null_String"
    using v0 assign_id_doc_id_7 by (rule insert_doc_no_id)
  from one null_array_db(1) two v0 [of doc_id_7] three show ?thesis by blast
qed
section \<open>Compaction preserves the in-memory state\<close>

lemma load_log_update_same:
  "load_log (AList.update c (log_file ps) e) c = map (\<lambda>p. take (length p mod 2 ^ 32) p) ps"
  using read_frames_concat [OF incomplete_frame_Nil, of ps]
  by (simp add: load_log_def update_conv' log_file_def)

lemma compact_collection_result:
  "memory_store s C = Some arr \<Longrightarrow>
   compact_collection env io s C
     = (io = Swap_Done,
        s\<lparr>storage := (if io = Swap_Done
                        then AList.update C (log_file (map (cJSON_PrintUnformatted env)
                               (array_items arr))) (storage s)
                        else storage s)\<rparr>)"
  by (cases io) (simp_all add: compact_collection_def compact_log_def Let_def log_file_def)

text \<open>
  Claim C6. Compacting a collection that is present in memory leaves the in-memory
  arrays, the primary and secondary indexes, the registered fields, the schema
  registry and the auth cache unchanged. After a successful compaction the log of the
  collection has as many frames as the collection has live documents; frame by frame,
  in array order, it holds the first \<open>size mod 2 ^ 32\<close> bytes of the serialization of
  the document, which is the whole serialization whenever that is shorter than
  \<open>2 ^ 32\<close> bytes (cJSON refuses to print more than \<^verbatim>\<open>INT_MAX\<close> bytes). A failed
  compaction leaves the log as it was.
\<close>

theorem compaction_preserves_memory:
  assumes present: "memory_store s C \<noteq> None"
  shows "memory_store (snd (compact_collection env io s C)) = memory_store s
       \<and> id_indexes (snd (compact_collection env io s C)) = id_indexes s
       \<and> custom_indexes (snd (compact_collection env io s C)) = custom_indexes s
       \<and> indexed_fields (snd (compact_collection env io s C)) = indexed_fields s
       \<and> schemas (snd (compact_collection env io s C)) = schemas s
       \<and> auth_cache (snd (compact_collection env io s C)) = auth_cache s
       \<and> (fst (compact_collection env io s C) \<longrightarrow>
            length (load_log (storage (snd (compact_collection env io s C))) C)
              = length (collection_items s C)
            \<and> load_log (storage (snd (compact_collection env io s C))) C
                = map (\<lambda>d. take (length (cJSON_PrintUnformatted env d) mod 2 ^ 32)
                               (cJSON_PrintUnformatted env d)) (collection_items s C))
       \<and> (fst (compact_collection env io s C)
            \<and> (\<forall>d\<in>set (collection_items s C). length (cJSON_PrintUnformatted env d) < 2 ^ 32)
           \<longrightarrow> load_log (storage (snd (compact_collection env io s C))) C
                 = map (cJSON_PrintUnformatted env) (collection_items s C))
       \<and> (\<not> fst (compact_collection env io s C) \<longrightarrow>
            storage (snd (compact_collection env io s C)) = storage s)"
proof -
  from present obtain arr where a: "memory_store s C = Some arr" by auto
  have items: "collection_items s C = array_items arr"
    by (simp add: collection_items_def a)
  note r = compact_collection_result [OF a]
  have frames: "load_log (storage (snd (compact_collection env io s C))) C
                = map (\<lambda>d. take (length (cJSON_PrintUnformatted env d) mod 2 ^ 32)
                               (cJSON_PrintUnformatted env d)) (collection_items s C)"
    if "fst (compact_collection env io s C)"
    using that by (simp add: r items load_log_update_same comp_def)
  have exact: "load_log (storage (snd (compact_collection env io s C))) C
                 = map (cJSON_PrintUnformatted env) (collection_items s C)"
    if "fst (compact_collection env io s C)"
       "\<forall>d\<in>set (collection_items s C). length (cJSON_PrintUnformatted env d) < 2 ^ 32"
    using frames [OF that(1)] that(2) by (simp add: map_idI)
  have count: "length (load_log (storage (snd (compact_collection env io s C))) C)
              = length (collection_items s C)"
    if "fst (compact_collection env io s C)"
    using frames [OF that] by simp
  have same: "storage (snd (compact_collection env io s C)) = storage s"
    if "\<not> fst (compact_collection env io s C)"
    using that by (simp add: r)
  from frames exact count same show ?thesis by (simp add: r)
qed

lemma print_doc_a: \<open>cJSON_PrintUnformatted scenario_env doc_a = ''{"_id":"a","v":1}''\<close>
  by code_simp

text \<open>The store with one document, compacted with and without a successful rename.\<close>

theorem compaction_preserves_memory_witness:
  \<open>memory_store (snd (compact_collection scenario_env Swap_Done one_doc_db ''items''))
      = memory_store one_doc_db
   \<and> id_indexes (snd (compact_collection scenario_env Swap_Done one_doc_db ''items''))
      = id_indexes one_doc_db
   \<and> custom_indexes (snd (compact_collection scenario_env Swap_Done one_doc_db ''items''))
      = custom_indexes one_doc_db
   \<and> schemas (snd (compact_collection scenario_env Swap_Done one_doc_db ''items''))
      = schemas one_doc_db
   \<and> auth_cache (snd (compact_collection scenario_env Swap_Done one_doc_db ''items''))
      = auth_cache one_doc_db
   \<and> fst (compact_collection scenario_env Swap_Done one_doc_db ''items'')
   \<and> collection_items one_doc_db ''items'' = [doc_a]
   \<and> load_log (storage (snd (compact_collection scenario_env Swap_Done one_doc_db ''items'')))
        ''items'' = [''{"_id":"a","v":1}'']
   \<and> storage (snd (compact_collection scenario_env Rename_Fails one_doc_db ''items''))
      = storage one_doc_db\<close>
proof -
  have present: "memory_store one_doc_db ''items'' \<noteq> None" by (simp add: one_doc_db(1))
  have items: "collection_items one_doc_db ''items'' = [doc_a]"
    by (simp add: collection_items_def one_doc_db(1) array_items_def add_child_def
          cJSON_CreateArray_def)
  have small: "\<forall>d\<in>set (collection_items one_doc_db ''items'').
                 length (cJSON_PrintUnformatted scenario_env d) < 2 ^ 32"
    by (simp add: items print_doc_a)
  have ok: "fst (compact_collection scenario_env Swap_Done one_doc_db ''items'')"
    by (simp add: compact_collection_result [OF one_doc_db(1)])
  have bad: "\<not> fst (compact_collection scenario_env Rename_Fails one_doc_db ''items'')"
    by (simp add: compact_collection_result [OF one_doc_db(1)])
  from compaction_preserves_memory [OF present, of scenario_env Swap_Done]
       compaction_preserves_memory [OF present, of scenario_env Rename_Fails]
       ok bad small items print_doc_a
  show ?thesis by simp
qed

section \<open>Find: the primary-key tier\<close>

lemma find_tier1_taken:
  "find_tier1 s coll query simple_req \<noteq> None \<longleftrightarrow>
     simple_req \<and> cJSON_IsString (cJSON_GetObjectItem query ''_id'')
     \<and> string_behind (cJSON_GetObjectItem query ''_id'') \<noteq> None"
  by (auto simp: find_tier1_def Let_def split: option.splits)

lemma find_docs_tier1:
  assumes "memory_store s coll = Some arr" and "simple_request sorting projection"
    and "cJSON_IsString (cJSON_GetObjectItem query ''_id'')"
    and "string_behind (cJSON_GetObjectItem query ''_id'') = Some target_id"
  shows "find_docs env s coll query sorting projection limit skip
           = Inr (Some (case id_indexes s coll target_id of
                          Some doc \<Rightarrow> result_array [doc]
                        | None \<Rightarrow> cJSON_CreateArray))"
  using assms by (simp add: find_docs_def find_tier1_def Let_def split: option.splits)

lemma query_a_v2:
  "cJSON_GetArraySize (Some query_a_v2) = 2"
  "cJSON_IsString (cJSON_GetObjectItem (Some query_a_v2) ''_id'')"
  "string_behind (cJSON_GetObjectItem (Some query_a_v2) ''_id'') = Some ''a''"
  "cJSON_GetObjectItem (Some query_a_v2) ''v'' = Some (set_key ''v'' (cJSON_CreateNumber 2))"
  "cJSON_GetObjectItem (Some doc_a) ''v'' = Some (set_key ''v'' (cJSON_CreateNumber 1))"
  by code_simp+

lemma one_doc_db_index: "id_indexes one_doc_db ''items'' ''a'' = Some doc_a"
proof -
  have v: "validate scenario_env (fresh_db []) ''items'' doc_a"
    by (rule validate_no_schema) (simp add: fresh_db_def)
  from insert_doc_accepted [where io = Stream_Good and generated = "''u1''",
         OF v assign_id_doc_a] obtain s'
    where r: "insert_doc scenario_env ''u1'' Stream_Good (fresh_db []) ''items'' doc_a
                = Inr (True, s')"
      and i: "id_indexes s' ''items'' ''a'' = Some doc_a"
    by auto
  have "one_doc_db = s'" by (simp add: one_doc_db_def state_after_def r)
  with i show ?thesis by simp
qed

text \<open>
  Claim C4 says that a simple query holding \<^verbatim>\<open>_id\<close> together with another key is
  answered by the full scan of the predicate engine. The code takes the primary-key
  tier whenever the \<^verbatim>\<open>_id\<close> member of a simple query is a string (lemma
  \<open>find_tier1_taken\<close>): it never looks at the number of keys, as the primary-key tier of
  \<^verbatim>\<open>Db::remove\<close> does. On the store whose only document is \<^verbatim>\<open>{"_id":"a","v":1}\<close>, the
  two-key query \<^verbatim>\<open>{"_id":"a","v":2}\<close> is answered by the primary index with that
  document, whatever the predicate engine would say.
\<close>

theorem find_id_tier_ignores_other_keys:
  "cJSON_GetArraySize (Some query_a_v2) = 2
   \<and> cJSON_GetObjectItem (Some query_a_v2) ''v'' \<noteq> cJSON_GetObjectItem (Some doc_a) ''v''
   \<and> collection_items one_doc_db ''items'' = [doc_a]
   \<and> find_tier1 one_doc_db ''items'' (Some query_a_v2) (simple_request None None)
        = Some (result_array [doc_a])
   \<and> find_docs env one_doc_db ''items'' (Some query_a_v2) None None limit skip
        = Inr (Some (result_array [doc_a]))"
proof -
  have s: "simple_request None None" by (simp add: simple_request_def)
  have items: "collection_items one_doc_db ''items'' = [doc_a]"
    by (simp add: collection_items_def one_doc_db(1) array_items_def add_child_def
          cJSON_CreateArray_def)
  have t: "find_tier1 one_doc_db ''items'' (Some query_a_v2) (simple_request None None)
             = Some (result_array [doc_a])"
    by (simp add: find_tier1_def s query_a_v2 one_doc_db_index)
  have f: "find_docs env one_doc_db ''items'' (Some query_a_v2) None None limit skip
             = Inr (Some (result_array [doc_a]))"
    using find_docs_tier1 [OF one_doc_db(1) s query_a_v2(2,3), of env limit skip]
    by (simp add: one_doc_db_index)
  have d: "cJSON_GetObjectItem (Some query_a_v2) ''v'' \<noteq> cJSON_GetObjectItem (Some doc_a) ''v''"
    by (simp add: query_a_v2 set_key_def cJSON_CreateNumber_def)
  from query_a_v2(1) d items t f show ?thesis by simp
qed

section \<open>Recovery and the secondary indexes\<close>

lemma kind_facts:
  \<open>cJSON_Parse scenario_env ''{"_id":"k1","kind":"A"}'' = Some doc_kind_A\<close>
  \<open>cJSON_Parse scenario_env ''[{"collection":"c","field":"kind"}]'' = Some index_snapshot\<close>
  "string_behind (cJSON_GetObjectItem (Some doc_kind_A) ''_id'') = Some ''k1''"
  "cJSON_IsString (cJSON_GetObjectItem (Some doc_kind_A) ''_id'')"
  "\<not> cJSON_IsTrue (cJSON_GetObjectItem (Some doc_kind_A) ''_deleted'')"
  "child index_snapshot = [index_entry ''c'' ''kind'']"
  "cJSON_GetObjectItem (Some (index_entry ''c'' ''kind'')) ''collection'' \<noteq> None"
  "cJSON_GetObjectItem (Some (index_entry ''c'' ''kind'')) ''field'' \<noteq> None"
  "string_behind (cJSON_GetObjectItem (Some (index_entry ''c'' ''kind'')) ''collection'') = Some ''c''"
  "string_behind (cJSON_GetObjectItem (Some (index_entry ''c'' ''kind'')) ''field'') = Some ''kind''"
  by code_simp+

lemma load_index_entry_kind:
  "load_index_entry r (index_entry ''c'' ''kind'')
     = Inr (r(''c'' \<mapsto> List.insert ''kind'' (case r ''c'' of None \<Rightarrow> [] | Some l \<Rightarrow> l)))"
  by (simp add: load_index_entry_def Let_def kind_facts std_string_def)

lemma indexes_dir_logs:
  "list_collections indexes_last_dir = [''c'', ''_indexes'']"
  "list_collections indexes_first_dir = [''_indexes'', ''c'']"
  "load_log indexes_last_dir ''c'' = kind_log"
  "load_log indexes_last_dir ''_indexes'' = index_log"
  "load_log indexes_first_dir ''c'' = kind_log"
  "load_log indexes_first_dir ''_indexes'' = index_log"
  by (simp_all add: list_collections_def indexes_last_dir_def indexes_first_dir_def
        load_log_log_file kind_log_def index_log_def)

lemma load_indexes:
  assumes "load_log (storage s) ''_indexes'' = index_log"
  shows "load_collection scenario_env io s ''_indexes''
           = Inr (s\<lparr>indexed_fields := (indexed_fields s)(''c'' \<mapsto>
                     List.insert ''kind'' (case indexed_fields s ''c'' of
                                              None \<Rightarrow> [] | Some l \<Rightarrow> l))\<rparr>)"
  by (simp add: load_collection_def assms index_log_def load_index_frame_def kind_facts
        load_index_entry_kind)

lemma load_kind_collection:
  assumes "load_log (storage s) ''c'' = kind_log"
  shows "\<exists>s'. load_collection scenario_env io s ''c'' = Inr s'
          \<and> collection_items s' ''c'' = [doc_kind_A]
          \<and> indexed_fields s' = indexed_fields s
          \<and> storage s' = storage s
          \<and> custom_indexes s' ''c''
               = custom_indexes
                   (update_custom_index scenario_env
                      (s\<lparr>custom_indexes := (custom_indexes s)(''c'' := (\<lambda>_. Map.empty))\<rparr>)
                      ''c'' doc_kind_A True) ''c''"
  by (simp add: load_collection_def assms kind_log_def replay_entry_def kind_facts Let_def
        rebuild_index_def index_item_def collection_items_def array_items_def
        add_child_def cJSON_CreateArray_def update_custom_index_def split: option.splits)


lemma query_kind_A:
  "cJSON_GetObjectItem (Some query_kind_A) ''_id'' = None"
  "cJSON_GetArraySize (Some query_kind_A) = 1"
  "array_items (Some query_kind_A) = [set_key ''kind'' (cJSON_CreateString ''A'')]"
  "item_key (set_key ''kind'' (cJSON_CreateString ''A'')) = Some ''kind''"
  "query_value_string env (set_key ''kind'' (cJSON_CreateString ''A'')) = Inr ''A''"
  by code_simp+

lemma find_kind_A:
  assumes "memory_store s ''c'' \<noteq> None" and "indexed_fields s ''c'' = Some [''kind'']"
  shows "find_docs env s ''c'' (Some query_kind_A) None None 0 0
           = Inr (Some (case custom_indexes s ''c'' ''kind'' ''A'' of
                          None \<Rightarrow> cJSON_CreateArray
                        | Some docs \<Rightarrow> result_array docs))"
  using assms
  by (auto simp: find_docs_def find_tier1_def find_tier2_def simple_request_def Let_def
        query_kind_A cJSON_IsString_def index_slice_def split: option.splits)

lemma collection_items_memory:
  "collection_items s c \<noteq> [] \<Longrightarrow> memory_store s c \<noteq> None"
  by (cases "memory_store s c") (simp_all add: collection_items_def)

lemma index_kind_A:
  "index_field scenario_env doc_kind_A True (\<lambda>_. Map.empty) ''kind'' ''kind'' ''A''
     = Some [doc_kind_A]"
  by (simp add: index_field_def stringify_doc_kind_A)

text \<open>
  Claim C3 asks for secondary-index consistency in the state right after recovery,
  under any order in which the directory is enumerated. \<^verbatim>\<open>load_all\<close> reads
  \<^verbatim>\<open>_indexes\<close> when the enumeration reaches it, not first, as its own header comment
  says it does. When the log of \<open>c\<close> is enumerated before \<^verbatim>\<open>_indexes\<close>, the indexes of
  \<open>c\<close> are rebuilt while no field is registered yet; afterwards \<open>kind\<close> is registered
  on \<open>c\<close>, the document of kind \<open>A\<close> is live, and the secondary index has no entry for
  it, so that the query \<^verbatim>\<open>{"kind":"A"}\<close> finds nothing. In the other order the index
  holds the document and the query finds it.
\<close>

theorem recovery_order_breaks_secondary_index:
  "(\<exists>s. load_all scenario_env (\<lambda>_. Swap_Done) (fresh_db indexes_last_dir) = Inr s
        \<and> indexed_fields s ''c'' = Some [''kind'']
        \<and> collection_items s ''c'' = [doc_kind_A]
        \<and> stringify scenario_env (cJSON_GetObjectItem (Some doc_kind_A) ''kind'') = Some ''A''
        \<and> custom_indexes s ''c'' ''kind'' ''A'' = None
        \<and> find_docs scenario_env s ''c'' (Some query_kind_A) None None 0 0
             = Inr (Some cJSON_CreateArray))
   \<and> (\<exists>s. load_all scenario_env (\<lambda>_. Swap_Done) (fresh_db indexes_first_dir) = Inr s
        \<and> indexed_fields s ''c'' = Some [''kind'']
        \<and> collection_items s ''c'' = [doc_kind_A]
        \<and> custom_indexes s ''c'' ''kind'' ''A'' = Some [doc_kind_A]
        \<and> find_docs scenario_env s ''c'' (Some query_kind_A) None None 0 0
             = Inr (Some (result_array [doc_kind_A])))"
proof -
  let ?io = "\<lambda>_ :: string. Swap_Done"
  \<comment> \<open>the collection first, the index metadata last\<close>
  let ?s0 = "fresh_db indexes_last_dir"
  have l0: "load_log (storage ?s0) ''c'' = kind_log"
    by (simp add: fresh_db_def indexes_dir_logs)
  from load_kind_collection [OF l0, of ?io] obtain s1
    where r1: "load_collection scenario_env ?io ?s0 ''c'' = Inr s1"
      and i1: "collection_items s1 ''c'' = [doc_kind_A]"
      and f1: "indexed_fields s1 = indexed_fields ?s0"
      and st1: "storage s1 = storage ?s0"
      and c1: "custom_indexes s1 ''c''
                 = custom_indexes
                     (update_custom_index scenario_env
                        (?s0\<lparr>custom_indexes := (custom_indexes ?s0)(''c'' := (\<lambda>_. Map.empty))\<rparr>)
                        ''c'' doc_kind_A True) ''c''"
    by blast
  have e1: "custom_indexes s1 ''c'' ''kind'' ''A'' = None"
    by (simp add: c1 update_custom_index_def fresh_db_def)
  have l1: "load_log (storage s1) ''_indexes'' = index_log"
    by (simp add: st1 fresh_db_def indexes_dir_logs)
  let ?s2 = "s1\<lparr>indexed_fields := (indexed_fields s1)(''c'' \<mapsto>
               List.insert ''kind'' (case indexed_fields s1 ''c'' of None \<Rightarrow> [] | Some l \<Rightarrow> l))\<rparr>"
  have r2: "load_collection scenario_env ?io s1 ''_indexes'' = Inr ?s2"
    by (rule load_indexes [OF l1])
  have n0: "list_collections (storage ?s0) = [''c'', ''_indexes'']"
    by (simp add: fresh_db_def indexes_dir_logs)
  have all: "load_all scenario_env ?io ?s0 = Inr ?s2"
    by (simp only: load_all_def n0 fold_result.simps r1 r2 sum.case)
  have fs: "indexed_fields ?s2 ''c'' = Some [''kind'']"
    by (simp add: f1 fresh_db_def)
  have it: "collection_items ?s2 ''c'' = [doc_kind_A]"
    using i1 by (simp add: collection_items_def)
  have cu: "custom_indexes ?s2 ''c'' ''kind'' ''A'' = None"
    using e1 by simp
  have m: "memory_store ?s2 ''c'' \<noteq> None"
    by (rule collection_items_memory) (simp add: it)
  have fd: "find_docs scenario_env ?s2 ''c'' (Some query_kind_A) None None 0 0
              = Inr (Some cJSON_CreateArray)"
    by (simp only: find_kind_A [OF m fs] cu) simp
  from all fs it cu fd stringify_doc_kind_A [of scenario_env]
  have last: "\<exists>s. load_all scenario_env ?io ?s0 = Inr s
        \<and> indexed_fields s ''c'' = Some [''kind'']
        \<and> collection_items s ''c'' = [doc_kind_A]
        \<and> stringify scenario_env (cJSON_GetObjectItem (Some doc_kind_A) ''kind'') = Some ''A''
        \<and> custom_indexes s ''c'' ''kind'' ''A'' = None
        \<and> find_docs scenario_env s ''c'' (Some query_kind_A) None None 0 0
             = Inr (Some cJSON_CreateArray)"
    by blast
  \<comment> \<open>the index metadata first\<close>
  let ?t0 = "fresh_db indexes_first_dir"
  have k0: "load_log (storage ?t0) ''_indexes'' = index_log"
    by (simp add: fresh_db_def indexes_dir_logs)
  let ?t1 = "?t0\<lparr>indexed_fields := (indexed_fields ?t0)(''c'' \<mapsto>
               List.insert ''kind'' (case indexed_fields ?t0 ''c'' of None \<Rightarrow> [] | Some l \<Rightarrow> l))\<rparr>"
  have q1: "load_collection scenario_env ?io ?t0 ''_indexes'' = Inr ?t1"
    by (rule load_indexes [OF k0])
  have k1: "load_log (storage ?t1) ''c'' = kind_log"
    by (simp add: fresh_db_def indexes_dir_logs)
  from load_kind_collection [OF k1, of ?io] obtain t2
    where q2: "load_collection scenario_env ?io ?t1 ''c'' = Inr t2"
      and j2: "collection_items t2 ''c'' = [doc_kind_A]"
      and g2: "indexed_fields t2 = indexed_fields ?t1"
      and d2: "custom_indexes t2 ''c''
                 = custom_indexes
                     (update_custom_index scenario_env
                        (?t1\<lparr>custom_indexes := (custom_indexes ?t1)(''c'' := (\<lambda>_. Map.empty))\<rparr>)
                        ''c'' doc_kind_A True) ''c''"
    by blast
  have m0: "list_collections (storage ?t0) = [''_indexes'', ''c'']"
    by (simp add: fresh_db_def indexes_dir_logs)
  have all2: "load_all scenario_env ?io ?t0 = Inr t2"
    by (simp only: load_all_def m0 fold_result.simps q1 q2 sum.case)
  have gs: "indexed_fields t2 ''c'' = Some [''kind'']"
    by (simp add: g2 fresh_db_def)
  have du: "custom_indexes t2 ''c'' ''kind'' ''A'' = Some [doc_kind_A]"
    by (simp add: d2 update_custom_index_def fresh_db_def index_kind_A)
  have m2: "memory_store t2 ''c'' \<noteq> None"
    by (rule collection_items_memory) (simp add: j2)
  have fd2: "find_docs scenario_env t2 ''c'' (Some query_kind_A) None None 0 0
              = Inr (Some (result_array [doc_kind_A]))"
    by (simp only: find_kind_A [OF m2 gs] du) simp
  from all2 gs j2 du fd2
  have first: "\<exists>s. load_all scenario_env ?io ?t0 = Inr s
        \<and> indexed_fields s ''c'' = Some [''kind'']
        \<and> collection_items s ''c'' = [doc_kind_A]
        \<and> custom_indexes s ''c'' ''kind'' ''A'' = Some [doc_kind_A]
        \<and> find_docs scenario_env s ''c'' (Some query_kind_A) None None 0 0
             = Inr (Some (result_array [doc_kind_A]))"
    by blast
  from last first show ?thesis by blast
qed

section \<open>Upsert and the writer lock\<close>

lemma empty_query_size: "cJSON_GetArraySize (Some cJSON_CreateObject) = 0"
  by (simp add: cJSON_GetArraySize_def cJSON_CreateObject_def)

lemma count_docs_absent: "memory_store s coll = None \<Longrightarrow> count_docs env s coll query = Inr 0"
  by (simp add: count_docs_def)

lemma count_docs_all:
  "memory_store s coll = Some arr \<Longrightarrow>
   count_docs env s coll (Some cJSON_CreateObject) = Inr (int (cJSON_GetArraySize arr))"
  by (simp add: count_docs_def empty_query_size)

lemma one_doc_db_insert:
  "insert_doc scenario_env ''u1'' Stream_Good (fresh_db []) ''items'' doc_a
     = Inr (True, one_doc_db)"
proof -
  have v: "validate scenario_env (fresh_db []) ''items'' doc_a"
    by (rule validate_no_schema) (simp add: fresh_db_def)
  from insert_doc_accepted [where io = Stream_Good and generated = "''u1''",
         OF v assign_id_doc_a] obtain s'
    where r: "insert_doc scenario_env ''u1'' Stream_Good (fresh_db []) ''items'' doc_a
                = Inr (True, s')"
    by auto
  then show ?thesis by (simp add: one_doc_db_def state_after_def)
qed

text \<open>
  Claim C7 says that an upsert holds the writer lock from its count to its mutation.
  In the code the count runs under the shared lock of \<^verbatim>\<open>Db::count\<close>, which is released
  before \<^verbatim>\<open>insert\<close> or \<^verbatim>\<open>update\<close> takes the writer lock. Two callers upsert into the
  empty store with the empty query: both count 0; the first then inserts; by now the
  count is 1, and an upsert that decided under the writer lock would update, as the
  sequential \<open>upsert\<close> on that state does; the second caller, acting on the 0 it
  counted earlier, inserts as well, and the collection holds two documents.
\<close>

theorem upsert_is_two_critical_sections:
  "upsert_locks 0 = [Lock_Shared, Unlock_Shared, Lock_Unique, Unlock_Unique]
   \<and> upsert_decide scenario_env (fresh_db []) ''items'' (Some cJSON_CreateObject) = Inr 0
   \<and> upsert_mutate scenario_env ''u1'' Stream_Good Swap_Done 0 (fresh_db []) ''items''
        (Some cJSON_CreateObject) doc_a = Inr (True, one_doc_db)
   \<and> upsert_decide scenario_env one_doc_db ''items'' (Some cJSON_CreateObject) = Inr 1
   \<and> (\<exists>s2. upsert_mutate scenario_env ''u2'' Stream_Good Swap_Done 0 one_doc_db ''items''
               (Some cJSON_CreateObject) doc_b = Inr (True, s2)
          \<and> collection_items s2 ''items'' = [doc_a, doc_b])
   \<and> upsert scenario_env ''u2'' Stream_Good Swap_Done one_doc_db ''items''
        (Some cJSON_CreateObject) doc_b
       = update_docs scenario_env Swap_Done one_doc_db ''items''
           (Some cJSON_CreateObject) (Some doc_b)"
proof -
  have locks: "upsert_locks 0 = [Lock_Shared, Unlock_Shared, Lock_Unique, Unlock_Unique]"
    by (simp add: upsert_locks_def count_locks_def insert_locks_def)
  have d0: "upsert_decide scenario_env (fresh_db []) ''items'' (Some cJSON_CreateObject) = Inr 0"
    by (simp add: upsert_decide_def count_docs_absent fresh_db_def)
  have a: "upsert_mutate scenario_env ''u1'' Stream_Good Swap_Done 0 (fresh_db []) ''items''
        (Some cJSON_CreateObject) doc_a = Inr (True, one_doc_db)"
    by (simp add: upsert_mutate_def one_doc_db_insert)
  have d1: "upsert_decide scenario_env one_doc_db ''items'' (Some cJSON_CreateObject) = Inr 1"
    by (simp add: upsert_decide_def count_docs_all [OF one_doc_db(1)] cJSON_GetArraySize_def
          add_child_def cJSON_CreateArray_def)
  have v: "validate scenario_env one_doc_db ''items'' doc_b"
    by (rule validate_no_schema) (simp add: one_doc_db(2))
  have arr: "memory_store one_doc_db ''items'' \<noteq> Some None" by (simp add: one_doc_db(1))
  have items: "collection_items one_doc_db ''items'' = [doc_a]"
    by (simp add: collection_items_def one_doc_db(1) array_items_def add_child_def
          cJSON_CreateArray_def)
  from insert_doc_accepted [where io = Stream_Good and generated = "''u2''",
         OF v assign_id_doc_b] obtain s2
    where r: "insert_doc scenario_env ''u2'' Stream_Good one_doc_db ''items'' doc_b
                = Inr (True, s2)"
      and m: "memory_store s2 ''items''
                = Some (cJSON_AddItemToArray (fst (get_collection one_doc_db ''items'')) doc_b)"
    by auto
  have "collection_items s2 ''items'' = [doc_a, doc_b]"
    using collection_items_insert [OF arr, of doc_b] m items
    by (simp add: collection_items_def)
  with r have b: "\<exists>s2. upsert_mutate scenario_env ''u2'' Stream_Good Swap_Done 0 one_doc_db
               ''items'' (Some cJSON_CreateObject) doc_b = Inr (True, s2)
          \<and> collection_items s2 ''items'' = [doc_a, doc_b]"
    by (simp add: upsert_mutate_def)
  have serial: "upsert scenario_env ''u2'' Stream_Good Swap_Done one_doc_db ''items''
        (Some cJSON_CreateObject) doc_b
       = update_docs scenario_env Swap_Done one_doc_db ''items''
           (Some cJSON_CreateObject) (Some doc_b)"
    by (simp add: upsert_def d1 upsert_mutate_def)
  from locks d0 a d1 b serial show ?thesis by blast
qed

end
